theory Spec2Isabelle
  imports Main "HOL-Library.AList"
begin

section \<open>Python values used by \<open>kalamine/layout.py\<close>\<close>

text \<open>
  A Python \<open>str\<close> is a sequence of Unicode code points: \<open>len\<close> counts code points and
  indexing yields one-code-point strings.  A code point is a \<open>nat\<close>, a string a list of them.
  Key identifiers (\<open>"ad01"\<close>, \<open>"spce"\<close>) and dictionary keys of the descriptor are ASCII and
  are kept as HOL strings.
\<close>

type_synonym ustr = "nat list"
type_synonym key_id = string

definition star :: nat where
  "star = 42"

definition blank :: ustr where
  "blank = [32]"

text \<open>
  The exceptions of the code.  \<open>layout.py\<close> raises nothing itself: what can happen is an
  \<open>IndexError\<close> of a list or string index, a \<open>KeyError\<close> of a dictionary lookup, and a
  \<open>TypeError\<close> or \<open>AttributeError\<close> of an operation on a value of the wrong type.
  \<open>ConfigurationError\<close> is the error the specification names; it is listed so that
  statements about it can be written, and no statement of the code raises it.
\<close>

datatype error = IndexError | KeyError | TypeError | AttributeError | ConfigurationError

text \<open>Python indexing \<open>xs[i]\<close> and \<open>xs[i] = v\<close>: a negative index counts from the end.\<close>

definition py_index :: "nat \<Rightarrow> int \<Rightarrow> nat option" where
  "py_index len i =
     (if 0 \<le> i \<and> i < int len then Some (nat i)
      else if i < 0 \<and> - int len \<le> i then Some (nat (int len + i))
      else None)"

definition py_get :: "'a list \<Rightarrow> int \<Rightarrow> error + 'a" where
  "py_get xs i = (case py_index (length xs) i of None \<Rightarrow> Inl IndexError | Some j \<Rightarrow> Inr (xs ! j))"

definition py_set :: "'a list \<Rightarrow> int \<Rightarrow> 'a \<Rightarrow> error + 'a list" where
  "py_set xs i v =
     (case py_index (length xs) i of None \<Rightarrow> Inl IndexError | Some j \<Rightarrow> Inr (xs[j := v]))"

text \<open>
  What the interpreter supplies.  \<open>str.upper()\<close> and \<open>str.lower()\<close> are fixed on ASCII;
  beyond ASCII they follow the Unicode tables of the interpreter (a code point may map to
  several), which are a parameter.  The parser and \<open>upper_key\<close> apply \<open>upper\<close> to
  one-code-point strings and \<open>lower\<close> to a cell (one code point, or \<open>*\<close> and one code
  point), where both act code point by code point.  On a whole string \<open>lower\<close> also depends
  on the context of a capital sigma; \<open>uc_str_lower\<close> is \<open>str.lower()\<close> on the whole strings
  that are not ASCII, used for the file name (line 176).  \<open>uc_today\<close> is
  \<open>datetime.date.today().isoformat()\<close> (line 177).  \<open>uc_hashable_slice\<close> tells whether a
  slice object is hashable, as it is from version 3.12 of the interpreter on.
\<close>

record unicode =
  uc_upper :: "nat \<Rightarrow> ustr"
  uc_lower :: "nat \<Rightarrow> ustr"
  uc_str_lower :: "ustr \<Rightarrow> ustr"
  uc_today :: ustr
  uc_hashable_slice :: bool

definition cp_upper :: "unicode \<Rightarrow> nat \<Rightarrow> ustr" where
  "cp_upper U c =
     (if c < 128 then (if 97 \<le> c \<and> c \<le> 122 then [c - 32] else [c]) else uc_upper U c)"

definition cp_lower :: "unicode \<Rightarrow> nat \<Rightarrow> ustr" where
  "cp_lower U c =
     (if c < 128 then (if 65 \<le> c \<and> c \<le> 90 then [c + 32] else [c]) else uc_lower U c)"

definition str_upper :: "unicode \<Rightarrow> ustr \<Rightarrow> ustr" where
  "str_upper U s = concat (map (cp_upper U) s)"

definition str_lower :: "unicode \<Rightarrow> ustr \<Rightarrow> ustr" where
  "str_lower U s = concat (map (cp_lower U) s)"

text \<open>
  A fragment of the Unicode case tables, for concrete runs: the ligature U+FB01 has the
  two-letter uppercase \<open>FI\<close>, U+0130 the two-code-point lowercase \<open>i\<close> U+0307, \<open>\<agrave>\<close> (U+00E0)
  and \<open>\<Agrave>\<close> (U+00C0) are a case pair; every other code point used below has no case.  The
  whole strings lowered in the runs are ASCII.  The runs are dated \<open>2024-01-01\<close>, on an
  interpreter where a slice is unhashable.
\<close>

definition unicode_fragment :: unicode where
  "unicode_fragment =
     \<lparr> uc_upper = (\<lambda>c. if c = 0xFB01 then [70, 73] else if c = 0xE0 then [0xC0] else [c]),
       uc_lower = (\<lambda>c. if c = 0x130 then [105, 0x307] else if c = 0xC0 then [0xE0] else [c]),
       uc_str_lower = (\<lambda>s. s),
       uc_today = [50, 48, 50, 52, 45, 48, 49, 45, 48, 49],
       uc_hashable_slice = False \<rparr>"

text \<open>
  The values that a descriptor file can give to a key: a string, bytes, an integer, a
  list, a dictionary (its content is not looked at), a set, or another scalar (a float, a
  boolean, a date, the null value).  An ASCII literal of the code is written with \<open>ustr_of\<close>.
\<close>

datatype pyvalue =
  PStr ustr | PBytes "nat list" | PInt int | PList "pyvalue list" | PDict | PSet | POther

definition ustr_of :: "string \<Rightarrow> ustr" where
  "ustr_of s = map of_char s"

text \<open>
  \<open>v[0:8]\<close>: strings, bytes and lists can be sliced.  Integers, sets and the other scalars
  are not subscriptable and raise \<open>TypeError\<close>.  A dictionary looks the slice up as a key:
  \<open>TypeError\<close> where a slice is unhashable, \<open>KeyError\<close> where it is hashable (no key of a
  descriptor is a slice).
\<close>

fun py_slice8 :: "unicode \<Rightarrow> pyvalue \<Rightarrow> error + pyvalue" where
  "py_slice8 U (PStr s) = Inr (PStr (take 8 s))"
| "py_slice8 U (PBytes b) = Inr (PBytes (take 8 b))"
| "py_slice8 U (PList xs) = Inr (PList (take 8 xs))"
| "py_slice8 U PDict = Inl (if uc_hashable_slice U then KeyError else TypeError)"
| "py_slice8 U v = Inl TypeError"

text \<open>\<open>v.lower()\<close>: only strings and bytes have the method.\<close>

definition ascii_lower :: "nat \<Rightarrow> nat" where
  "ascii_lower c = (if 65 \<le> c \<and> c \<le> 90 then c + 32 else c)"

fun py_lower :: "unicode \<Rightarrow> pyvalue \<Rightarrow> error + pyvalue" where
  "py_lower U (PStr s) =
     Inr (PStr (if list_all (\<lambda>c. c < 128) s then map ascii_lower s else uc_str_lower U s))"
| "py_lower U (PBytes b) = Inr (PBytes (map ascii_lower b))"
| "py_lower U v = Inl AttributeError"

text \<open>Lists, dictionaries and sets cannot be keys of a dictionary.\<close>

fun unhashable :: "pyvalue \<Rightarrow> bool" where
  "unhashable (PList xs) = True"
| "unhashable PDict = True"
| "unhashable PSet = True"
| "unhashable v = False"

section \<open>Helpers\<close>

text \<open>\<open>upper_key\<close> (lines 40--65).\<close>

definition custom_alpha :: "(ustr \<times> ustr) list" where
  "custom_alpha =
     [([0xDF], [0x1E9E]), ([0x7C], [0xA6]), ([0x3C], [0x2264]), ([0x3E], [0x2265]),
      ([0x2020], [0x2021]), ([0x2190], [0x21D0]), ([0x2191], [0x21D1]),
      ([0x2192], [0x21D2]), ([0x2193], [0x21D3]), ([0xB5], [32])]"

definition upper_key :: "unicode \<Rightarrow> ustr \<Rightarrow> ustr" where
  "upper_key U letter =
     (if length letter \<noteq> 1 then blank
      else case map_of custom_alpha letter of
             Some v \<Rightarrow> v
           | None \<Rightarrow> if str_upper U letter \<noteq> str_lower U letter then str_upper U letter
                     else blank)"

section \<open>The layout object\<close>

text \<open>
  Modelled from the spec: the \<open>Layer\<close> enumeration of \<open>utils.py\<close>, which is not part of the
  sources at hand.  Six planes indexed consecutively, in three adjacent pairs; the code
  itself fixes \<open>BASE = 0\<close> (\<open>_get_geometry([0, Layer.ODK])\<close>).
\<close>

definition BASE :: nat where "BASE = 0"
definition SHIFT :: nat where "SHIFT = 1"
definition ODK :: nat where "ODK = 2"
definition ODK_SHIFT :: nat where "ODK_SHIFT = 3"
definition ALTGR :: nat where "ALTGR = 4"
definition ALTGR_SHIFT :: nat where "ALTGR_SHIFT = 5"

text \<open>
  An entry of the dead-key catalog \<open>DEAD_KEYS\<close> is a dictionary with the keys \<open>char\<close>,
  \<open>base\<close>, \<open>alt\<close> and, once the one-dead-key pass has run, \<open>alt_self\<close> and \<open>alt_space\<close>.
\<close>

record dead_key =
  dk_char :: ustr
  base :: ustr
  alt :: ustr
  alt_self :: "ustr option"
  alt_space :: "ustr option"

text \<open>
  Dictionaries keep insertion order, which the loops of the code observe: an association
  list, read with \<open>map_of\<close> and written with \<open>AList.update\<close> (in place for a key that is
  there, at the end for a new one).

  The dead-key dictionaries are objects that the catalog and the layout could share, so
  they live in a store: a list of objects, an object reference being its index.  The
  catalog \<open>DEAD_KEYS\<close> is the list of references \<open>[0..<n]\<close>; \<open>self.dead_keys\<close> maps a trigger
  to a reference.
\<close>

record layout =
  layers :: "(key_id \<times> ustr) list list"
  dead_keys :: "(ustr \<times> nat) list"
  dk_index :: "ustr list"
  meta :: "(string \<times> pyvalue) list"
  has_altgr :: bool
  has_1dk :: bool
  store :: "dead_key list"

text \<open>An exception leaves the store as it is at that moment: the outcome carries it.\<close>

type_synonym 'a result = "(error \<times> dead_key list) + 'a"

definition raise :: "error \<Rightarrow> layout \<Rightarrow> 'a result" where
  "raise e s = Inl (e, store s)"

record row =
  offset :: int
  keys :: "key_id list"

section \<open>\<open>_parse_template\<close> (lines 253--293)\<close>

definition col_offset :: "nat \<Rightarrow> int" where
  "col_offset layer_number = (if layer_number = BASE then 0 else 2)"

text \<open>\<open>("*" if line[i - 1] == "*" else "") + line[i]\<close>\<close>

definition read_cell :: "ustr \<Rightarrow> int \<Rightarrow> error + ustr" where
  "read_cell line i =
     (case py_get line (i - 1) of
        Inl e \<Rightarrow> Inl e
      | Inr m \<Rightarrow> (case py_get line i of
                   Inl e \<Rightarrow> Inl e
                 | Inr g \<Rightarrow> Inr ((if m = star then [star] else []) @ [g])))"

text \<open>\<open>self.layers[n][key] = v\<close>\<close>

definition layer_set :: "nat \<Rightarrow> key_id \<Rightarrow> ustr \<Rightarrow> layout \<Rightarrow> layout result" where
  "layer_set n key v s =
     (if n < length (layers s)
      then Inr (s\<lparr>layers := (layers s)[n := AList.update key v (layers s ! n)]\<rparr>)
      else raise IndexError s)"

text \<open>\<open>self.dead_keys[k] = dk.copy()\<close>, for the catalog object \<open>dk\<close> at reference \<open>a\<close>.\<close>

definition copy_dead_key :: "ustr \<Rightarrow> nat \<Rightarrow> layout \<Rightarrow> layout" where
  "copy_dead_key k a s =
     s\<lparr>dead_keys := AList.update k (length (store s)) (dead_keys s),
       store := store s @ [store s ! a]\<rparr>"

definition register_dead_key :: "ustr \<Rightarrow> ustr \<Rightarrow> nat \<Rightarrow> layout \<Rightarrow> layout" where
  "register_dead_key base_key shift_key a s =
     (let s1 = (if base_key = dk_char (store s ! a) then copy_dead_key base_key a s else s)
      in if shift_key = dk_char (store s1 ! a) then copy_dead_key shift_key a s1 else s1)"

definition register_dead_keys :: "nat \<Rightarrow> ustr \<Rightarrow> ustr \<Rightarrow> layout \<Rightarrow> layout" where
  "register_dead_keys n base_key shift_key s =
     fold (register_dead_key base_key shift_key) [0..<n] s"

text \<open>The two presentation-expansion rules (lines 273--276).\<close>

definition expand_base :: "unicode \<Rightarrow> nat \<Rightarrow> ustr \<Rightarrow> ustr \<Rightarrow> ustr" where
  "expand_base U layer_number b sh =
     (if layer_number = BASE \<and> b = blank then str_lower U sh else b)"

definition expand_shift :: "unicode \<Rightarrow> nat \<Rightarrow> ustr \<Rightarrow> ustr \<Rightarrow> ustr" where
  "expand_shift U layer_number base_key sh =
     (if layer_number \<noteq> BASE \<and> sh = blank then upper_key U base_key else sh)"

text \<open>The body of the loop over the keys of a row (lines 270--289).\<close>

definition parse_key ::
  "unicode \<Rightarrow> nat \<Rightarrow> nat \<Rightarrow> ustr \<Rightarrow> ustr \<Rightarrow> int \<Rightarrow> key_id \<Rightarrow> layout \<Rightarrow> layout result" where
  "parse_key U n layer_number base_line shift_line i key s =
     (case read_cell base_line i of
        Inl e \<Rightarrow> raise e s
      | Inr b \<Rightarrow>
     (case read_cell shift_line i of
        Inl e \<Rightarrow> raise e s
      | Inr sh \<Rightarrow>
     (let base_key = expand_base U layer_number b sh;
          shift_key = expand_shift U layer_number base_key sh
      in case (if base_key \<noteq> blank then layer_set layer_number key base_key s
               else Inr s) of
           Inl e \<Rightarrow> Inl e
         | Inr s1 \<Rightarrow>
        (case (if shift_key \<noteq> blank then layer_set (layer_number + 1) key shift_key s1
               else Inr s1) of
           Inl e \<Rightarrow> Inl e
         | Inr s2 \<Rightarrow> Inr (register_dead_keys n base_key shift_key s2)))))"

fun parse_keys ::
  "unicode \<Rightarrow> nat \<Rightarrow> nat \<Rightarrow> ustr \<Rightarrow> ustr \<Rightarrow> int \<Rightarrow> key_id list \<Rightarrow> layout \<Rightarrow> layout result" where
  "parse_keys U n layer_number base_line shift_line i [] s = Inr s"
| "parse_keys U n layer_number base_line shift_line i (key # ks) s =
     (case parse_key U n layer_number base_line shift_line i key s of
        Inl e \<Rightarrow> Inl e
      | Inr s' \<Rightarrow> parse_keys U n layer_number base_line shift_line (i + 6) ks s')"

fun parse_rows ::
  "unicode \<Rightarrow> nat \<Rightarrow> ustr list \<Rightarrow> nat \<Rightarrow> nat \<Rightarrow> row list \<Rightarrow> layout \<Rightarrow> layout result" where
  "parse_rows U n template layer_number j [] s = Inr s"
| "parse_rows U n template layer_number j (r # rows) s =
     (case py_get template (int (2 + j * 3)) of
        Inl e \<Rightarrow> raise e s
      | Inr base_line \<Rightarrow>
     (case py_get template (int (1 + j * 3)) of
        Inl e \<Rightarrow> raise e s
      | Inr shift_line \<Rightarrow>
     (case parse_keys U n layer_number base_line shift_line
             (offset r + col_offset layer_number) (keys r) s of
        Inl e \<Rightarrow> Inl e
      | Inr s' \<Rightarrow> parse_rows U n template layer_number (j + 1) rows s')))"

definition parse_template ::
  "unicode \<Rightarrow> nat \<Rightarrow> ustr list \<Rightarrow> row list \<Rightarrow> nat \<Rightarrow> layout \<Rightarrow> layout result" where
  "parse_template U n template rows layer_number s =
     parse_rows U n template layer_number 0 rows s"

section \<open>\<open>_fill_template\<close> (lines 299--352)\<close>

text \<open>\<open>s[-1]\<close>: the last code point of a string, an \<open>IndexError\<close> on the empty string.\<close>

definition last_char :: "ustr \<Rightarrow> error + nat" where
  "last_char v = py_get v (- 1)"

definition is_dead :: "ustr \<Rightarrow> bool" where
  "is_dead v = (length v = 2 \<and> v ! 0 = star)"

text \<open>\<open>line[i] = v[-1]\<close>, then \<open>line[i - 1] = "*"\<close> if \<open>v\<close> is a dead-key cell.\<close>

definition write_cell :: "ustr \<Rightarrow> int \<Rightarrow> ustr \<Rightarrow> error + ustr" where
  "write_cell line i v =
     (case last_char v of
        Inl e \<Rightarrow> Inl e
      | Inr g \<Rightarrow> (case py_set line i g of
                   Inl e \<Rightarrow> Inl e
                 | Inr line' \<Rightarrow> if is_dead v then py_set line' (i - 1) star else Inr line'))"

text \<open>\<open>self.layers[n][key]\<close> if the key is there, else \<open>" "\<close> (lines 318--324).\<close>

definition layer_get :: "(key_id \<times> ustr) list list \<Rightarrow> nat \<Rightarrow> key_id \<Rightarrow> error + ustr" where
  "layer_get ls n key =
     (if n < length ls
      then Inr (case map_of (ls ! n) key of Some v \<Rightarrow> v | None \<Rightarrow> blank)
      else Inl IndexError)"

text \<open>The body of the loop over the keys (lines 318--344), on the two lines of the row.\<close>

definition fill_key ::
  "unicode \<Rightarrow> (key_id \<times> ustr) list list \<Rightarrow> nat \<Rightarrow> ustr \<times> ustr \<Rightarrow> int \<Rightarrow> key_id
     \<Rightarrow> error + (ustr \<times> ustr)" where
  "fill_key U ls layer_number bs i key =
     (case layer_get ls layer_number key of
        Inl e \<Rightarrow> Inl e
      | Inr base_key \<Rightarrow>
     (case layer_get ls (layer_number + 1) key of
        Inl e \<Rightarrow> Inl e
      | Inr shift_key \<Rightarrow>
     (if layer_number = BASE then
        (case write_cell (snd bs) i shift_key of
           Inl e \<Rightarrow> Inl e
         | Inr shift' \<Rightarrow>
             if upper_key U base_key \<noteq> shift_key
             then (case write_cell (fst bs) i base_key of
                     Inl e \<Rightarrow> Inl e
                   | Inr base' \<Rightarrow> Inr (base', shift'))
             else Inr (fst bs, shift'))
      else
        (case write_cell (fst bs) i base_key of
           Inl e \<Rightarrow> Inl e
         | Inr base' \<Rightarrow>
             if upper_key U base_key \<noteq> shift_key
             then (case write_cell (snd bs) i shift_key of
                     Inl e \<Rightarrow> Inl e
                   | Inr shift' \<Rightarrow> Inr (base', shift'))
             else Inr (base', snd bs)))))"

fun fill_keys ::
  "unicode \<Rightarrow> (key_id \<times> ustr) list list \<Rightarrow> nat \<Rightarrow> ustr \<times> ustr \<Rightarrow> int \<Rightarrow> key_id list
     \<Rightarrow> error + (ustr \<times> ustr)" where
  "fill_keys U ls layer_number bs i [] = Inr bs"
| "fill_keys U ls layer_number bs i (key # ks) =
     (case fill_key U ls layer_number bs i key of
        Inl e \<Rightarrow> Inl e
      | Inr bs' \<Rightarrow> fill_keys U ls layer_number bs' (i + 6) ks)"

fun fill_rows ::
  "unicode \<Rightarrow> (key_id \<times> ustr) list list \<Rightarrow> nat \<Rightarrow> nat \<Rightarrow> row list \<Rightarrow> ustr list
     \<Rightarrow> error + ustr list" where
  "fill_rows U ls layer_number j [] template = Inr template"
| "fill_rows U ls layer_number j (r # rows) template =
     (case py_get template (int (2 + j * 3)) of
        Inl e \<Rightarrow> Inl e
      | Inr base_line \<Rightarrow>
     (case py_get template (int (1 + j * 3)) of
        Inl e \<Rightarrow> Inl e
      | Inr shift_line \<Rightarrow>
     (case fill_keys U ls layer_number (base_line, shift_line)
             (offset r + col_offset layer_number) (keys r) of
        Inl e \<Rightarrow> Inl e
      | Inr (base', shift') \<Rightarrow>
          fill_rows U ls layer_number (j + 1) rows
            (template[2 + j * 3 := base', 1 + j * 3 := shift']))))"

definition fill_template ::
  "unicode \<Rightarrow> (key_id \<times> ustr) list list \<Rightarrow> ustr list \<Rightarrow> row list \<Rightarrow> nat \<Rightarrow> error + ustr list" where
  "fill_template U ls template rows layer_number = fill_rows U ls layer_number 0 rows template"

section \<open>\<open>KeyboardLayout.__init__\<close> (lines 140--251)\<close>

text \<open>
  The constructor works on the descriptor that \<open>load_descriptor\<close> returns, merged into
  its ancestor when it names one (lines 152--158; a failure to load ends the process
  before anything is built).  Its blocks are held as the lines that
  \<open>text_to_lines\<close> of \<open>utils.py\<close> makes of them.  The geometry table \<open>GEOMETRY\<close>, the
  catalog \<open>DEAD_KEYS\<close> and the trigger \<open>ODK_ID\<close> are data of \<open>utils.py\<close> and are parameters.
  The descriptor is held as its entries other than the blocks and the spacebar table
  (\<open>cfg_meta\<close>: \<open>geometry\<close>, \<open>name\<close>, \<open>name8\<close>, \<open>author\<close> and so on, with whatever values the file
  gives them), the name of its file without directory and extension (\<open>cfg_file\<close>, line
  173), the blocks and the spacebar table.
\<close>

record descriptor =
  cfg_meta :: "(string \<times> pyvalue) list"
  cfg_file :: ustr
  cfg_full :: "ustr list option"
  cfg_base :: "ustr list option"
  cfg_altgr :: "ustr list option"
  cfg_spacebar :: "(string \<times> ustr) list option"

record shape =
  shape_rows :: "row list"
  shape_template :: "ustr list"

definition and_then :: "'e + 'a \<Rightarrow> ('a \<Rightarrow> 'e + 'b) \<Rightarrow> 'e + 'b" where
  "and_then m f = (case m of Inl e \<Rightarrow> Inl e | Inr v \<Rightarrow> f v)"

text \<open>\<open>CONFIG\<close> (lines 115--119) and \<open>SPACEBAR\<close> (lines 121--127).\<close>

definition CONFIG :: "(string \<times> pyvalue) list" where
  "CONFIG =
     [(''author'', PStr (ustr_of ''nobody'')),
      (''license'', PStr (ustr_of ''WTFPL - Do What The Fuck You Want Public License'')),
      (''geometry'', PStr (ustr_of ''ISO''))]"

definition SPACEBAR :: "(string \<times> ustr) list" where
  "SPACEBAR =
     [(''shift'', [32]), (''altgr'', [32]), (''altgr_shift'', [32]),
      (''1dk'', [39]), (''1dk_shift'', [39])]"

text \<open>Lines 144--149: the blank layout, over the store that holds the catalog.\<close>

definition blank_layout :: "dead_key list \<Rightarrow> layout" where
  "blank_layout st =
     \<lparr> layers = [[], [], [], [], [], []], dead_keys = [], dk_index = [],
       meta = CONFIG, has_altgr = False, has_1dk = False, store = st \<rparr>"

text \<open>\<open>d[k]\<close> on a dictionary.\<close>

definition dict_get :: "('k \<times> 'v) list \<Rightarrow> 'k \<Rightarrow> layout \<Rightarrow> 'v result" where
  "dict_get d k s = (case map_of d k of None \<Rightarrow> raise KeyError s | Some v \<Rightarrow> Inr v)"

text \<open>Lines 181--192.\<close>

definition parse_blocks ::
  "unicode \<Rightarrow> nat \<Rightarrow> descriptor \<Rightarrow> row list \<Rightarrow> layout \<Rightarrow> layout result" where
  "parse_blocks U n cfg rows s =
     (case cfg_full cfg of
        Some full \<Rightarrow>
          and_then (parse_template U n full rows BASE s) (\<lambda>s1.
          and_then (parse_template U n full rows ALTGR s1) (\<lambda>s2.
          Inr (s2\<lparr>has_altgr := True\<rparr>)))
      | None \<Rightarrow>
          (case cfg_base cfg of
             None \<Rightarrow> raise KeyError s
           | Some base_block \<Rightarrow>
               and_then (parse_template U n base_block rows BASE s) (\<lambda>s1.
               and_then (parse_template U n base_block rows ODK s1) (\<lambda>s2.
               (case cfg_altgr cfg of
                  None \<Rightarrow> Inr s2
                | Some altgr_block \<Rightarrow>
                    parse_template U n altgr_block rows ALTGR (s2\<lparr>has_altgr := True\<rparr>))))))"

text \<open>Lines 195--198: the spacebar table, the defaults overridden by the descriptor.\<close>

definition spacebar_table :: "descriptor \<Rightarrow> (string \<times> ustr) list" where
  "spacebar_table cfg =
     (case cfg_spacebar cfg of
        None \<Rightarrow> SPACEBAR
      | Some d \<Rightarrow> fold (\<lambda>k spc. AList.update k (the (map_of d k)) spc) (map fst d) SPACEBAR)"

text \<open>Lines 199--207.\<close>

definition set_spacebar :: "(string \<times> ustr) list \<Rightarrow> layout \<Rightarrow> layout result" where
  "set_spacebar spc s =
     and_then (layer_set BASE ''spce'' [32] s) (\<lambda>s1.
     and_then (dict_get spc ''shift'' s1) (\<lambda>v_shift.
     and_then (layer_set SHIFT ''spce'' v_shift s1) (\<lambda>s2.
     and_then (dict_get spc ''1dk'' s2) (\<lambda>v_1dk.
     and_then (layer_set ODK ''spce'' v_1dk s2) (\<lambda>s3.
     and_then (if ''shift_1dk'' \<in> fst ` set spc then dict_get spc ''shift_1dk'' s3
               else dict_get spc ''1dk'' s3) (\<lambda>v_shift_1dk.
     and_then (layer_set ODK_SHIFT ''spce'' v_shift_1dk s3) (\<lambda>s4.
     if has_altgr s4 then
       and_then (dict_get spc ''altgr'' s4) (\<lambda>v_altgr.
       and_then (layer_set ALTGR ''spce'' v_altgr s4) (\<lambda>s5.
       and_then (dict_get spc ''altgr_shift'' s5) (\<lambda>v_altgr_shift.
       layer_set ALTGR_SHIFT ''spce'' v_altgr_shift s5)))
     else Inr s4)))))))"

text \<open>Lines 210--212: the active dead keys, in the order of the catalog.\<close>

definition index_dead_keys :: "nat \<Rightarrow> layout \<Rightarrow> layout" where
  "index_dead_keys n s =
     fold (\<lambda>a s'. if dk_char (store s' ! a) \<in> fst ` set (dead_keys s')
                    then s'\<lparr>dk_index := dk_index s' @ [dk_char (store s' ! a)]\<rparr> else s')
       [0..<n] s"

text \<open>Lines 215--219.\<close>

definition layer_has_char :: "(key_id \<times> ustr) list list \<Rightarrow> ustr \<Rightarrow> nat \<Rightarrow> bool" where
  "layer_has_char ls char layer_index = (char \<in> snd ` set (ls ! layer_index))"

text \<open>
  Lines 226--231: the loop over \<open>range(len(base))\<close>, with \<open>used_base\<close> and \<open>used_alt\<close> as
  the accumulator; \<open>alt[i]\<close> is read only for a character that is kept.
\<close>

fun prune_loop ::
  "(key_id \<times> ustr) list list \<Rightarrow> ustr \<Rightarrow> ustr \<Rightarrow> nat list \<Rightarrow> ustr \<times> ustr
     \<Rightarrow> error + (ustr \<times> ustr)" where
  "prune_loop ls base_s alt_s [] used = Inr used"
| "prune_loop ls base_s alt_s (i # is) used =
     (if layer_has_char ls [base_s ! i] BASE \<or> layer_has_char ls [base_s ! i] SHIFT
      then (case py_get alt_s (int i) of
              Inl e \<Rightarrow> Inl e
            | Inr a \<Rightarrow> prune_loop ls base_s alt_s is (fst used @ [base_s ! i], snd used @ [a]))
      else prune_loop ls base_s alt_s is used)"

text \<open>Lines 222--233, for the dead key whose object is at reference \<open>a\<close>.\<close>

definition prune_dead_key :: "nat \<Rightarrow> layout \<Rightarrow> layout result" where
  "prune_dead_key a s =
     (let dk = store s ! a
      in case prune_loop (layers s) (base dk) (alt dk) [0..<length (base dk)] ([], []) of
           Inl e \<Rightarrow> raise e s
         | Inr used \<Rightarrow>
             Inr (s\<lparr>store := (store s)[a := dk\<lparr>base := fst used, alt := snd used\<rparr>]\<rparr>))"

text \<open>
  Line 221: the loop over \<open>self.dead_keys\<close>.  The keys of a dictionary are distinct, so the
  reference that \<open>self.dead_keys[dk_id]\<close> finds is the one listed with \<open>dk_id\<close>.
\<close>

fun prune_dead_keys :: "(ustr \<times> nat) list \<Rightarrow> layout \<Rightarrow> layout result" where
  "prune_dead_keys [] s = Inr s"
| "prune_dead_keys ((dk_id, a) # dks) s =
     (case prune_dead_key a s of Inl e \<Rightarrow> Inl e | Inr s' \<Rightarrow> prune_dead_keys dks s')"

text \<open>Lines 241--244: the first key of the BASE layer that bears the trigger.\<close>

definition set_alt_self :: "ustr \<Rightarrow> nat \<Rightarrow> layout \<Rightarrow> layout result" where
  "set_alt_self ODK_ID a s =
     (case find (\<lambda>kv. snd kv = ODK_ID) (layers s ! BASE) of
        None \<Rightarrow> Inr s
      | Some kv \<Rightarrow>
          (case map_of (layers s ! ODK) (fst kv) of
             None \<Rightarrow> raise KeyError s
           | Some v \<Rightarrow> Inr (s\<lparr>store := (store s)[a := (store s ! a)\<lparr>alt_self := Some v\<rparr>]\<rparr>)))"

text \<open>Lines 247--251, for one layer \<open>i\<close>: the loop over the items of layer \<open>i + ODK\<close>.\<close>

fun odk_copy_layer ::
  "ustr \<Rightarrow> nat \<Rightarrow> nat \<Rightarrow> (key_id \<times> ustr) list \<Rightarrow> layout \<Rightarrow> layout result" where
  "odk_copy_layer ODK_ID a i [] s = Inr s"
| "odk_copy_layer ODK_ID a i ((name, alt_char) # items) s =
     (case map_of (layers s ! i) name of
        None \<Rightarrow> raise KeyError s
      | Some base_char \<Rightarrow>
          odk_copy_layer ODK_ID a i items
            (if name \<noteq> ''spce'' \<and> base_char \<noteq> ODK_ID
             then s\<lparr>store := (store s)[a := (store s ! a)
                      \<lparr>base := base (store s ! a) @ base_char,
                       alt := alt (store s ! a) @ alt_char\<rparr>]\<rparr>
             else s))"

text \<open>Lines 236--251.\<close>

definition odk_pass :: "ustr \<Rightarrow> (string \<times> ustr) list \<Rightarrow> layout \<Rightarrow> layout result" where
  "odk_pass ODK_ID spc s =
     (case map_of (dead_keys s) ODK_ID of
        None \<Rightarrow> Inr s
      | Some a \<Rightarrow>
          and_then (dict_get spc ''1dk'' s) (\<lambda>v_1dk.
          and_then (set_alt_self ODK_ID a
                      (s\<lparr>has_1dk := True,
                         store := (store s)[a := (store s ! a)\<lparr>alt_space := Some v_1dk\<rparr>]\<rparr>)) (\<lambda>s1.
          and_then (odk_copy_layer ODK_ID a BASE (layers s1 ! (BASE + ODK)) s1) (\<lambda>s2.
          odk_copy_layer ODK_ID a SHIFT (layers s2 ! (SHIFT + ODK)) s2))))"

text \<open>
  Lines 165--172: every entry of the descriptor that is not a block and whose value is not
  a dictionary goes into \<open>self.meta\<close>.
\<close>

definition copy_meta ::
  "(string \<times> pyvalue) list \<Rightarrow> (string \<times> pyvalue) list \<Rightarrow> (string \<times> pyvalue) list" where
  "copy_meta items m =
     fold (\<lambda>kv m'. if fst kv \<noteq> ''base'' \<and> fst kv \<noteq> ''full'' \<and> fst kv \<noteq> ''altgr'' \<and> snd kv \<noteq> PDict
                    then AList.update (fst kv) (snd kv) m' else m')
       items m"

text \<open>
  Lines 165--177: \<open>name\<close> is the descriptor's or the file name, \<open>name8\<close> the descriptor's
  or the first eight characters of \<open>name\<close>, \<open>fileName\<close> the lowercase of \<open>name8\<close>,
  \<open>lastChange\<close> the date of the run.
\<close>

definition set_meta :: "unicode \<Rightarrow> descriptor \<Rightarrow> layout \<Rightarrow> layout result" where
  "set_meta U cfg s =
     (let m1 = copy_meta (cfg_meta cfg) (meta s);
          name = (case map_of (cfg_meta cfg) ''name'' of
                    Some v \<Rightarrow> v
                  | None \<Rightarrow> PStr (cfg_file cfg));
          m2 = AList.update ''name'' name m1
      in case (case map_of (cfg_meta cfg) ''name8'' of
                 Some v \<Rightarrow> Inr v
               | None \<Rightarrow> py_slice8 U name) of
           Inl e \<Rightarrow> raise e s
         | Inr name8 \<Rightarrow>
             (case py_lower U name8 of
                Inl e \<Rightarrow> raise e s
              | Inr file_name \<Rightarrow>
                  Inr (s\<lparr>meta := AList.update ''lastChange'' (PStr (uc_today U))
                                    (AList.update ''fileName'' file_name
                                       (AList.update ''name8'' name8 m2))\<rparr>)))"

text \<open>
  Line 180, \<open>GEOMETRY[self.meta["geometry"]]\<close>: the keys of the table are strings, so an
  unhashable value raises \<open>TypeError\<close> and any other value that is not a key \<open>KeyError\<close>.
\<close>

definition lookup_shape :: "(ustr \<rightharpoonup> shape) \<Rightarrow> pyvalue \<Rightarrow> layout \<Rightarrow> shape result" where
  "lookup_shape G v s =
     (if unhashable v then raise TypeError s
      else case v of
             PStr g \<Rightarrow> (case G g of None \<Rightarrow> raise KeyError s | Some sh \<Rightarrow> Inr sh)
           | _ \<Rightarrow> raise KeyError s)"

text \<open>
  Lines 175 and 176 succeed when the descriptor gives \<open>name8\<close> as a string, or gives no
  \<open>name8\<close> and its \<open>name\<close> is a string or absent (the file name is a string).
\<close>

fun is_str :: "pyvalue \<Rightarrow> bool" where
  "is_str (PStr s) = True"
| "is_str v = False"

definition names_are_strings :: "descriptor \<Rightarrow> bool" where
  "names_are_strings cfg =
     (case map_of (cfg_meta cfg) ''name8'' of
        Some v \<Rightarrow> is_str v
      | None \<Rightarrow> (case map_of (cfg_meta cfg) ''name'' of Some v \<Rightarrow> is_str v | None \<Rightarrow> True))"

text \<open>
  The constructor.  \<open>G\<close> is \<open>GEOMETRY\<close>; the catalog objects are the first \<open>n\<close> objects
  of the store \<open>st\<close>.
\<close>

definition compile ::
  "unicode \<Rightarrow> (ustr \<rightharpoonup> shape) \<Rightarrow> nat \<Rightarrow> ustr \<Rightarrow> descriptor \<Rightarrow> dead_key list
     \<Rightarrow> layout result" where
  "compile U G n ODK_ID cfg st =
     and_then (set_meta U cfg (blank_layout st)) (\<lambda>s0.
     and_then (dict_get (meta s0) ''geometry'' s0) (\<lambda>g.
     and_then (lookup_shape G g s0) (\<lambda>sh.
     and_then (parse_blocks U n cfg (shape_rows sh) s0) (\<lambda>s1.
     and_then (set_spacebar (spacebar_table cfg) s1) (\<lambda>s2.
     and_then (prune_dead_keys (dead_keys s2) (index_dead_keys n s2)) (\<lambda>s3.
     odk_pass ODK_ID (spacebar_table cfg) s3))))))"

section \<open>Data for concrete runs\<close>

text \<open>
  A geometry with one row of two keys at offset 1, so that the first key has its BASE
  glyph in column 1 and its ODK or AltGr glyph in column 3, the second in columns 7 and 9;
  a catalog with the one-dead-key entry (trigger \<open>**\<close>) and a circumflex (trigger \<open>*^\<close>).
\<close>

definition ex_rows :: "row list" where
  "ex_rows = [\<lparr>offset = 1, keys = [''ad01'', ''ad02'']\<rparr>]"

definition ex_G :: "ustr \<rightharpoonup> shape" where
  "ex_G = [ustr_of ''ISO'' \<mapsto> \<lparr>shape_rows = ex_rows, shape_template = replicate 3 (replicate 12 32)\<rparr>]"

definition ex_catalog :: "dead_key list" where
  "ex_catalog =
     [\<lparr>dk_char = [42, 42], base = [], alt = [], alt_self = None, alt_space = None\<rparr>,
      \<lparr>dk_char = [42, 94], base = [97, 101, 120], alt = [0xE2, 0xEA, 0x78],
       alt_self = None, alt_space = None\<rparr>]"

text \<open>
  The metadata of a layout built on 2024-01-01 from a file \<open>layout\<close> that declares none.
\<close>

definition ex_meta :: "(string \<times> pyvalue) list" where
  "ex_meta =
     CONFIG @ [(''name'', PStr (ustr_of ''layout'')), (''name8'', PStr (ustr_of ''layout'')),
               (''fileName'', PStr (ustr_of ''layout'')),
               (''lastChange'', PStr (ustr_of ''2024-01-01''))]"

text \<open>
  A sparse descriptor: the first key bears the trigger \<open>**\<close> on BASE and \<open>"\<close> on the ODK
  plane; the second key bears \<open>x\<close> on the ODK plane and nothing on BASE or SHIFT.
\<close>

definition sparse_cfg :: descriptor where
  "sparse_cfg =
     \<lparr>cfg_meta = [], cfg_file = ustr_of ''layout'', cfg_full = None,
      cfg_base = Some [replicate 12 32,
                       replicate 12 32,
                       [42, 42, 32, 34, 32, 32, 32, 32, 32, 120, 32, 32]],
      cfg_altgr = None, cfg_spacebar = None\<rparr>"

section \<open>Notions used in the statements\<close>


text \<open>The effect of lines 280--283 on the list of layers.\<close>

definition store_layer ::
  "nat \<Rightarrow> key_id \<Rightarrow> ustr \<Rightarrow> (key_id \<times> ustr) list list \<Rightarrow> (key_id \<times> ustr) list list" where
  "store_layer m key v ls = (if v \<noteq> blank then ls[m := AList.update key v (ls ! m)] else ls)"


section \<open>Invariants of the store\<close>

text \<open>
  \<open>st\<close> is the store when the constructor starts.  The references held by
  \<open>self.dead_keys\<close> are fresh: they point past \<open>st\<close>, to distinct objects, and \<open>st\<close> itself
  is still an initial segment of the store.  After parsing, each of these objects is a
  copy of a catalog entry with the trigger it is filed under.  An outcome is framed when
  it still holds \<open>st\<close> as an initial segment, also when it is an exception.
\<close>

definition refs_fresh :: "dead_key list \<Rightarrow> layout \<Rightarrow> bool" where
  "refs_fresh st s \<longleftrightarrow>
     length st \<le> length (store s) \<and> take (length st) (store s) = st \<and>
     distinct (map fst (dead_keys s)) \<and> distinct (map snd (dead_keys s)) \<and>
     (\<forall>ka \<in> set (dead_keys s). length st \<le> snd ka \<and> snd ka < length (store s))"

definition copies_of :: "nat \<Rightarrow> dead_key list \<Rightarrow> layout \<Rightarrow> bool" where
  "copies_of n st s \<longleftrightarrow>
     (\<forall>ka \<in> set (dead_keys s). \<exists>c<n. dk_char (st ! c) = fst ka \<and> store s ! snd ka = st ! c)"

definition parse_inv :: "nat \<Rightarrow> dead_key list \<Rightarrow> layout \<Rightarrow> bool" where
  "parse_inv n st s \<longleftrightarrow> refs_fresh st s \<and> (n \<le> length st \<longrightarrow> copies_of n st s)"

definition frame_ok :: "dead_key list \<Rightarrow> ('a \<Rightarrow> bool) \<Rightarrow> 'a result \<Rightarrow> bool" where
  "frame_ok st P r = (case r of Inl ex \<Rightarrow> take (length st) (snd ex) = st | Inr s \<Rightarrow> P s)"

text \<open>A step that changes the layers of the layout and nothing else.\<close>

definition layers_only :: "layout \<Rightarrow> layout \<Rightarrow> bool" where
  "layers_only s s' \<longleftrightarrow> s' = s\<lparr>layers := layers s'\<rparr>"

text \<open>
  The pairs of a dead key that the pruning pass keeps: those whose base character is a
  value of the BASE or of the SHIFT layer; and the dead key pruned to them.
\<close>

definition kept_pairs :: "(key_id \<times> ustr) list list \<Rightarrow> dead_key \<Rightarrow> (nat \<times> nat) list" where
  "kept_pairs ls dk =
     filter (\<lambda>p. layer_has_char ls [fst p] BASE \<or> layer_has_char ls [fst p] SHIFT)
       (zip (base dk) (alt dk))"

definition pruned :: "(key_id \<times> ustr) list list \<Rightarrow> dead_key \<Rightarrow> dead_key" where
  "pruned ls dk = dk\<lparr>base := map fst (kept_pairs ls dk), alt := map snd (kept_pairs ls dk)\<rparr>"

text \<open>
  The entries that the one-dead-key pass takes from the items of layer \<open>i + ODK\<close>, given
  layer \<open>i\<close>: not the spacebar, and not an entry whose value in layer \<open>i\<close> is the trigger.
\<close>

definition odk_entries :: "ustr \<Rightarrow> (key_id \<times> ustr) list \<Rightarrow> (key_id \<times> ustr) list \<Rightarrow> (key_id \<times> ustr) list" where
  "odk_entries ODK_ID li items =
     filter (\<lambda>item. fst item \<noteq> ''spce'' \<and> map_of li (fst item) \<noteq> Some ODK_ID) items"

definition odk_base :: "ustr \<Rightarrow> (key_id \<times> ustr) list \<Rightarrow> (key_id \<times> ustr) list \<Rightarrow> ustr" where
  "odk_base ODK_ID li items =
     concat (map (\<lambda>item. the (map_of li (fst item))) (odk_entries ODK_ID li items))"

definition odk_alt :: "ustr \<Rightarrow> (key_id \<times> ustr) list \<Rightarrow> (key_id \<times> ustr) list \<Rightarrow> ustr" where
  "odk_alt ODK_ID li items = concat (map snd (odk_entries ODK_ID li items))"

text \<open>
  The pairs that lines 246--251 append to the one-dead-key entry: for each entry taken
  from the ODK layer its BASE value with its ODK value, then for each entry taken from the
  ODK_SHIFT layer its SHIFT value with its ODK_SHIFT value.
\<close>

definition odk_pairs :: "ustr \<Rightarrow> (key_id \<times> ustr) list list \<Rightarrow> (ustr \<times> ustr) list" where
  "odk_pairs ODK_ID ls =
     map (\<lambda>item. (the (map_of (ls ! BASE) (fst item)), snd item))
       (odk_entries ODK_ID (ls ! BASE) (ls ! ODK)) @
     map (\<lambda>item. (the (map_of (ls ! SHIFT) (fst item)), snd item))
       (odk_entries ODK_ID (ls ! SHIFT) (ls ! ODK_SHIFT))"

definition store_only :: "layout \<Rightarrow> layout \<Rightarrow> bool" where
  "store_only s s' \<longleftrightarrow> s' = s\<lparr>store := store s'\<rparr> \<and> length (store s') = length (store s)"

text \<open>
  The object of the one-dead-key entry after lines 236--251, given the spacebar table, the
  layers and the object as the pruning pass left it.
\<close>

definition odk_object ::
  "ustr \<Rightarrow> (string \<times> ustr) list \<Rightarrow> (key_id \<times> ustr) list list \<Rightarrow> dead_key \<Rightarrow> dead_key" where
  "odk_object ODK_ID spc ls dk =
     dk\<lparr>alt_space := map_of spc ''1dk'',
        alt_self := (case find (\<lambda>kv. snd kv = ODK_ID) (ls ! BASE) of
                       None \<Rightarrow> alt_self dk
                     | Some kv \<Rightarrow> map_of (ls ! ODK) (fst kv)),
        base := base dk @ odk_base ODK_ID (ls ! BASE) (ls ! ODK)
                  @ odk_base ODK_ID (ls ! SHIFT) (ls ! ODK_SHIFT),
        alt := alt dk @ odk_alt ODK_ID (ls ! BASE) (ls ! ODK)
                 @ odk_alt ODK_ID (ls ! SHIFT) (ls ! ODK_SHIFT)\<rparr>"

text \<open>The store that an outcome of the constructor leaves.\<close>

definition final_store :: "layout result \<Rightarrow> dead_key list" where
  "final_store r = (case r of Inl ex \<Rightarrow> snd ex | Inr s \<Rightarrow> store s)"

text \<open>
  Any number of compilations in one process: each constructor call starts on the store
  that the previous one left, whether it returned or raised.
\<close>

definition compilations ::
  "unicode \<Rightarrow> (ustr \<rightharpoonup> shape) \<Rightarrow> nat \<Rightarrow> ustr \<Rightarrow> descriptor list \<Rightarrow> dead_key list
     \<Rightarrow> dead_key list" where
  "compilations U G n ODK_ID cfgs st =
     fold (\<lambda>cfg st'. final_store (compile U G n ODK_ID cfg st')) cfgs st"

text \<open>
  A descriptor with the spacebar override \<open>{"1dk": "'", "shift_1dk": "\<acute>"}\<close>.  The first key
  bears \<open>A\<close> on SHIFT (so \<open>a\<close> on BASE) and \<open>\<agrave>\<close> on the ODK plane; the second key bears the
  trigger \<open>**\<close> on BASE and the diaeresis (U+00A8) on the ODK plane.
\<close>

definition odk_cfg :: descriptor where
  "odk_cfg =
     \<lparr>cfg_meta = [], cfg_file = ustr_of ''layout'', cfg_full = None,
      cfg_base = Some [replicate 12 32,
                       [32, 65, 32, 32, 32, 32, 32, 32, 32, 32, 32, 32],
                       [32, 32, 32, 0xE0, 32, 32, 42, 42, 32, 0xA8, 32, 32]],
      cfg_altgr = None,
      cfg_spacebar = Some [(''1dk'', [39]), (''shift_1dk'', [0xB4])]\<rparr>"

text \<open>
  A descriptor where the trigger is on SHIFT of the first key (BASE \<open>x\<close>, ODK plane \<open>z\<close> and
  \<open>y\<close>) and on BASE of the second key (SHIFT \<open>X\<close>, ODK plane \<open>q\<close> and \<open>Y\<close>).
\<close>

definition shifted_trigger_cfg :: descriptor where
  "shifted_trigger_cfg =
     \<lparr>cfg_meta = [], cfg_file = ustr_of ''layout'', cfg_full = None,
      cfg_base = Some [replicate 12 32,
                       [42, 42, 32, 121, 32, 32, 32, 88, 32, 89, 32, 32],
                       [32, 120, 32, 122, 32, 32, 42, 42, 32, 113, 32, 32]],
      cfg_altgr = None, cfg_spacebar = None\<rparr>"

text \<open>
  A geometry with one row of three keys, and a descriptor for it: \<open>a\<close> on BASE of the
  first key with \<open>~\<close> on its ODK plane; \<open>-\<close> on BASE of the second and of the third key,
  with an en dash (U+2013) and an em dash (U+2014) on their ODK planes; the trigger on
  SHIFT of the third key.  Every cell is a single character, the trigger apart.
\<close>

definition ex_G3 :: "ustr \<rightharpoonup> shape" where
  "ex_G3 = [ustr_of ''ISO'' \<mapsto> \<lparr>shape_rows = [\<lparr>offset = 1, keys = [''ad01'', ''ad02'', ''ad03'']\<rparr>],
                        shape_template = replicate 3 (replicate 18 32)\<rparr>]"

definition dash_cfg :: descriptor where
  "dash_cfg =
     \<lparr>cfg_meta = [], cfg_file = ustr_of ''layout'', cfg_full = None,
      cfg_base = Some [replicate 18 32,
                       [32, 32, 32, 32, 32, 32, 32, 32, 32, 32, 32, 32, 42, 42, 32, 32, 32, 32],
                       [32, 97, 32, 126, 32, 32, 32, 45, 32, 0x2013, 32, 32, 32, 45, 32, 0x2014, 32, 32]],
      cfg_altgr = None, cfg_spacebar = None\<rparr>"

text \<open>A descriptor with a dead circumflex on BASE of the first key and \<open>e\<close> on the second.\<close>

definition circ_cfg :: descriptor where
  "circ_cfg =
     \<lparr>cfg_meta = [], cfg_file = ustr_of ''layout'', cfg_full = None,
      cfg_base = Some [replicate 12 32,
                       replicate 12 32,
                       [42, 94, 32, 32, 32, 32, 32, 101, 32, 32, 32, 32]],
      cfg_altgr = None, cfg_spacebar = None\<rparr>"

text \<open>The layouts that the constructor builds from these descriptors.\<close>

definition odk_layout :: layout where
  "odk_layout =
     \<lparr>layers =
        [[(''ad01'', [97]), (''ad02'', [42, 42]), (''spce'', [32])],
         [(''ad01'', [65]), (''spce'', [32])],
         [(''ad01'', [224]), (''ad02'', [168]), (''spce'', [39])],
         [(''ad01'', [192]), (''spce'', [180])], [], []],
      dead_keys = [([42, 42], 2)], dk_index = [[42, 42]],
      meta = ex_meta, has_altgr = False, has_1dk = True,
      store = ex_catalog @
          [\<lparr>dk_char = [42, 42], base = [97, 65], alt = [224, 192],
            alt_self = Some [168], alt_space = Some [39]\<rparr>]\<rparr>"

definition shifted_trigger_layout :: layout where
  "shifted_trigger_layout =
     \<lparr>layers =
        [[(''ad01'', [120]), (''ad02'', [42, 42]), (''spce'', [32])],
         [(''ad01'', [42, 42]), (''ad02'', [88]), (''spce'', [32])],
         [(''ad01'', [122]), (''ad02'', [113]), (''spce'', [39])],
         [(''ad01'', [121]), (''ad02'', [89]), (''spce'', [39])], [], []],
      dead_keys = [([42, 42], 3)], dk_index = [[42, 42]],
      meta = ex_meta, has_altgr = False, has_1dk = True,
      store = ex_catalog @
          [\<lparr>dk_char = [42, 42], base = [], alt = [], alt_self = None, alt_space = None\<rparr>,
           \<lparr>dk_char = [42, 42], base = [120, 88], alt = [122, 89],
            alt_self = Some [113], alt_space = Some [39]\<rparr>]\<rparr>"

definition dash_layout :: layout where
  "dash_layout =
     \<lparr>layers =
        [[(''ad01'', [97]), (''ad02'', [45]), (''ad03'', [45]), (''spce'', [32])],
         [(''ad03'', [42, 42]), (''spce'', [32])],
         [(''ad01'', [126]), (''ad02'', [8211]), (''ad03'', [8212]), (''spce'', [39])],
         [(''spce'', [39])], [], []],
      dead_keys = [([42, 42], 2)],
      dk_index = [[42, 42]], meta = ex_meta,
      has_altgr = False, has_1dk = True,
      store = ex_catalog @
          [\<lparr>dk_char = [42, 42], base = [97, 45, 45], alt = [126, 8211, 8212],
            alt_self = None, alt_space = Some [39]\<rparr>]\<rparr>"

definition circ_layout :: layout where
  "circ_layout =
     \<lparr>layers =
        [[(''ad01'', [42, 94]), (''ad02'', [101]), (''spce'', [32])],
         [(''spce'', [32])], [(''spce'', [39])], [(''spce'', [39])], [], []],
      dead_keys = [([42, 94], 2)], dk_index = [[42, 94]],
      meta = ex_meta, has_altgr = False, has_1dk = False,
      store = ex_catalog @
          [\<lparr>dk_char = [42, 94], base = [101], alt = [234], alt_self = None,
            alt_space = None\<rparr>]\<rparr>"

text \<open>
  The shapes of a cell: one character, or the marker and one character; and the shapes of
  a value that the parser may insert: a cell that is not the blank.
\<close>

definition cell_shaped :: "ustr \<Rightarrow> bool" where
  "cell_shaped v \<longleftrightarrow> length v = 1 \<or> (length v = 2 \<and> hd v = star)"

definition cell_value :: "ustr \<Rightarrow> bool" where
  "cell_value v \<longleftrightarrow> (length v = 1 \<and> v \<noteq> blank) \<or> (length v = 2 \<and> hd v = star)"

text \<open>A canvas for the rows \<open>ex_rows\<close> with the ligature U+FB01 as AltGr glyph of the first key.\<close>

definition ligature_canvas :: "ustr list" where
  "ligature_canvas =
     [replicate 12 32, replicate 12 32,
      [32, 32, 32, 0xFB01, 32, 32, 32, 32, 32, 32, 32, 32]]"

definition ligature_layout :: layout where
  "ligature_layout =
     (blank_layout [])\<lparr>layers := [[], [], [], [], [(''ad01'', [0xFB01])], [(''ad01'', [70, 73])]]\<rparr>"

text \<open>
  Every entry of a layer of \<open>s'\<close> is an entry of the same layer of \<open>s\<close> or has one of the
  two shapes.
\<close>

definition only_cells :: "layout \<Rightarrow> layout \<Rightarrow> bool" where
  "only_cells s s' \<longleftrightarrow>
     (\<forall>m key v. map_of (layers s' ! m) key = Some v
        \<longrightarrow> map_of (layers s ! m) key = Some v \<or> cell_value v)"

text \<open>A canvas with \<open>A\<close> on SHIFT of the first key and a dead circumflex on BASE of the second.\<close>

definition ascii_canvas :: "ustr list" where
  "ascii_canvas =
     [replicate 12 32,
      [32, 65, 32, 32, 32, 32, 32, 32, 32, 32, 32, 32],
      [32, 32, 32, 32, 32, 32, 42, 94, 32, 32, 32, 32]]"

definition ascii_layout :: layout where
  "ascii_layout =
     (blank_layout [])\<lparr>layers := [[(''ad01'', [97]), (''ad02'', [42, 94])], [(''ad01'', [65])],
                                   [], [], [], []]\<rparr>"

text \<open>
  A canvas for the rows \<open>ex_rows\<close> with the digit \<open>1\<close> as BASE glyph of the first key and no
  SHIFT glyph, the layout that the parser makes of it, and a fresh template for these rows.
\<close>

definition digit_canvas :: "ustr list" where
  "digit_canvas =
     [replicate 12 32, replicate 12 32,
      [32, 49, 32, 32, 32, 32, 32, 32, 32, 32, 32, 32]]"

definition digit_layout :: layout where
  "digit_layout = (blank_layout [])\<lparr>layers := [[(''ad01'', [49])], [], [], [], [], []]\<rparr>"

definition fresh_template :: "ustr list" where
  "fresh_template =
     [replicate 12 32,
      [32, 32, 32, 32, 32, 32, 32, 32, 32, 32, 32, 32],
      [32, 32, 32, 32, 32, 32, 32, 32, 32, 32, 32, 32]]"

section \<open>Properties of \<open>upper_key\<close>\<close>

lemma custom_alpha_len: "map_of custom_alpha t = Some v \<Longrightarrow> length t = 1"
  by (auto simp: custom_alpha_def split: if_splits)

text \<open>
  Claim C6.  \<open>upper_key\<close> is a function of its input string (and of the case tables of the
  interpreter).  An input whose length is not 1 gives the blank; an input of the override
  table gives its tabulated counterpart, so \<open>\<ss>\<close> (U+00DF) gives U+1E9E and the micro
  sign (U+00B5) the blank; any other one-character input gives its uppercase when that
  differs from its lowercase, so \<open>a\<close> gives \<open>A\<close>, and the blank when it does not, so \<open>=\<close>
  gives the blank.
\<close>

theorem upper_key_cases:
  "(length s \<noteq> 1 \<longrightarrow> upper_key U s = blank) \<and>
   (map_of custom_alpha t = Some v \<longrightarrow> upper_key U t = v) \<and>
   (length w = 1 \<and> map_of custom_alpha w = None \<and> str_upper U w \<noteq> str_lower U w
      \<longrightarrow> upper_key U w = str_upper U w) \<and>
   (length z = 1 \<and> map_of custom_alpha z = None \<and> str_upper U z = str_lower U z
      \<longrightarrow> upper_key U z = blank) \<and>
   upper_key U [0xDF] = [0x1E9E] \<and> upper_key U [0xB5] = blank \<and>
   upper_key U [97] = [65] \<and> upper_key U [61] = blank"
  using custom_alpha_len [of t v]
  by (simp add: upper_key_def custom_alpha_def blank_def str_upper_def str_lower_def
        cp_upper_def cp_lower_def)

theorem upper_key_cases_witness:
  "length ([42, 94] :: ustr) \<noteq> 1 \<and> upper_key unicode_fragment [42, 94] = blank \<and>
   map_of custom_alpha [0x3C] = Some [0x2264] \<and> upper_key unicode_fragment [0x3C] = [0x2264] \<and>
   length ([0xE0] :: ustr) = 1 \<and> map_of custom_alpha [0xE0] = None \<and>
   str_upper unicode_fragment [0xE0] \<noteq> str_lower unicode_fragment [0xE0] \<and>
   upper_key unicode_fragment [0xE0] = [0xC0] \<and>
   length ([49] :: ustr) = 1 \<and> map_of custom_alpha [49] = None \<and>
   str_upper unicode_fragment [49] = str_lower unicode_fragment [49] \<and>
   upper_key unicode_fragment [49] = blank"
  using upper_key_cases [of "[42, 94]" unicode_fragment "[0x3C]" "[0x2264]" "[0xE0]" "[49]"]
  by (simp add: custom_alpha_def str_upper_def str_lower_def cp_upper_def cp_lower_def
        unicode_fragment_def)

section \<open>One key of \<open>_parse_template\<close>\<close>

lemma layers_copy_dead_key [simp]: "layers (copy_dead_key k a s) = layers s"
  by (simp add: copy_dead_key_def)

lemma layers_register_dead_key [simp]: "layers (register_dead_key b sh a s) = layers s"
  by (simp add: register_dead_key_def Let_def)

lemma layers_register_dead_keys [simp]: "layers (register_dead_keys n b sh s) = layers s"
proof -
  have "layers (fold (register_dead_key b sh) as s) = layers s" for as
    by (induction as arbitrary: s) simp_all
  then show ?thesis by (simp add: register_dead_keys_def)
qed

lemma layer_set_Inr:
  "layer_set m key v s = Inr s' \<Longrightarrow>
     m < length (layers s) \<and> s' = s\<lparr>layers := (layers s)[m := AList.update key v (layers s ! m)]\<rparr>"
  by (auto simp: layer_set_def raise_def split: if_splits)

lemma parse_key_Inr:
  assumes "parse_key U n L base_line shift_line i key s = Inr s'"
  shows "\<exists>b sh. read_cell base_line i = Inr b \<and> read_cell shift_line i = Inr sh \<and>
    (expand_base U L b sh \<noteq> blank \<longrightarrow> L < length (layers s)) \<and>
    (expand_shift U L (expand_base U L b sh) sh \<noteq> blank \<longrightarrow> L + 1 < length (layers s)) \<and>
    layers s' = store_layer (L + 1) key (expand_shift U L (expand_base U L b sh) sh)
                   (store_layer L key (expand_base U L b sh) (layers s)) \<and>
    s' = register_dead_keys n (expand_base U L b sh) (expand_shift U L (expand_base U L b sh) sh)
           (s\<lparr>layers := layers s'\<rparr>)"
proof -
  from assms obtain b where b: "read_cell base_line i = Inr b"
    by (cases "read_cell base_line i") (simp_all add: parse_key_def raise_def)
  from assms b obtain sh where sh: "read_cell shift_line i = Inr sh"
    by (cases "read_cell shift_line i") (simp_all add: parse_key_def raise_def)
  let ?bk = "expand_base U L b sh"
  let ?sk = "expand_shift U L ?bk sh"
  from assms b sh obtain s1 where s1:
    "(if ?bk \<noteq> blank then layer_set L key ?bk s else Inr s) = Inr s1"
    by (cases "if ?bk \<noteq> blank then layer_set L key ?bk s else Inr s")
       (simp_all add: parse_key_def Let_def)
  from assms b sh s1 obtain s2 where s2:
    "(if ?sk \<noteq> blank then layer_set (L + 1) key ?sk s1 else Inr s1) = Inr s2"
    and s': "s' = register_dead_keys n ?bk ?sk s2"
    by (cases "if ?sk \<noteq> blank then layer_set (L + 1) key ?sk s1 else Inr s1")
       (simp_all add: parse_key_def Let_def)
  have l1: "layers s1 = store_layer L key ?bk (layers s)"
    and b1: "?bk \<noteq> blank \<Longrightarrow> L < length (layers s)"
    using s1 by (auto simp: store_layer_def dest!: layer_set_Inr split: if_splits)
  have l2: "layers s2 = store_layer (L + 1) key ?sk (layers s1)"
    and b2: "?sk \<noteq> blank \<Longrightarrow> L + 1 < length (layers s1)"
    using s2 by (auto simp: store_layer_def dest!: layer_set_Inr split: if_splits)
  have len: "length (layers s1) = length (layers s)"
    by (simp add: l1 store_layer_def)
  have l3: "layers s' = store_layer (L + 1) key ?sk (store_layer L key ?bk (layers s))"
    by (simp add: s' l2 l1)
  have s2eq: "s2 = s\<lparr>layers := layers s2\<rparr>"
    using s1 s2 by (auto dest!: layer_set_Inr split: if_splits)
  show ?thesis
    using b sh b1 b2 len l3 s' s2eq by auto
qed



section \<open>One key of \<open>_fill_template\<close>\<close>







section \<open>Concrete runs of the constructor\<close>

lemmas eval_parse = parse_template_def parse_key_def read_cell_def py_get_def py_index_def
  expand_base_def expand_shift_def upper_key_def str_upper_def str_lower_def cp_upper_def
  cp_lower_def custom_alpha_def layer_set_def register_dead_keys_def register_dead_key_def
  copy_dead_key_def blank_def star_def BASE_def SHIFT_def ODK_def ODK_SHIFT_def ALTGR_def
  ALTGR_SHIFT_def col_offset_def raise_def and_then_def blank_layout_def CONFIG_def ustr_of_def
  Let_def unicode_fragment_def upt_rec

lemmas eval_compile = compile_def parse_blocks_def set_spacebar_def spacebar_table_def
  SPACEBAR_def dict_get_def index_dead_keys_def prune_dead_key_def layer_has_char_def
  odk_pass_def set_alt_self_def ex_G_def ex_rows_def ex_catalog_def set_meta_def copy_meta_def
  lookup_shape_def ex_meta_def ascii_lower_def

section \<open>The metadata\<close>

lemma set_meta_Inr: "set_meta U cfg s = Inr s' \<Longrightarrow> \<exists>m. s' = s\<lparr>meta := m\<rparr>"
  by (auto simp: set_meta_def Let_def raise_def split: sum.splits)

lemma set_meta_Inl: "set_meta U cfg s = Inl ex \<Longrightarrow> snd ex = store s"
  by (auto simp: set_meta_def Let_def raise_def split: sum.splits)

lemma lookup_shape_Inl: "lookup_shape G v s = Inl ex \<Longrightarrow> snd ex = store s"
  by (auto simp: lookup_shape_def raise_def split: if_splits pyvalue.splits option.splits)

section \<open>The geometry shape\<close>

text \<open>
  Claim C3, as the specification states it, fails: a descriptor whose geometry is
  \<open>"qwerty"\<close> does not raise \<open>ConfigurationError\<close>; the lookup in the geometry table raises
  \<open>KeyError\<close>.
\<close>

theorem unknown_shape_not_configuration_error:
  "compile unicode_fragment ex_G 2 [42, 42]
       (sparse_cfg\<lparr>cfg_meta := [(''geometry'', PStr (ustr_of ''qwerty''))]\<rparr>) ex_catalog
     = Inl (KeyError, ex_catalog) \<and>
   compile unicode_fragment ex_G 2 [42, 42]
       (sparse_cfg\<lparr>cfg_meta := [(''geometry'', PStr (ustr_of ''qwerty''))]\<rparr>) ex_catalog
     \<noteq> Inl (ConfigurationError, ex_catalog)"
  by (simp add: eval_parse eval_compile sparse_cfg_def)

lemma parse_blocks_meta:
  "parse_blocks U n (cfg\<lparr>cfg_meta := m\<rparr>) rws s = parse_blocks U n cfg rws s"
  by (simp add: parse_blocks_def split: option.split)

lemma spacebar_table_meta: "spacebar_table (cfg\<lparr>cfg_meta := m\<rparr>) = spacebar_table cfg"
  by (simp add: spacebar_table_def)

lemma copy_meta_Nil: "copy_meta [] m = m"
  by (simp add: copy_meta_def)

lemma copy_meta_Cons:
  "copy_meta (kv # items) m =
     copy_meta items
       (if fst kv \<noteq> ''base'' \<and> fst kv \<noteq> ''full'' \<and> fst kv \<noteq> ''altgr'' \<and> snd kv \<noteq> PDict
        then AList.update (fst kv) (snd kv) m else m)"
  by (simp add: copy_meta_def)

lemma copy_meta_append: "copy_meta (xs @ ys) m = copy_meta ys (copy_meta xs m)"
  by (simp add: copy_meta_def)

lemma copy_meta_other:
  "k \<notin> fst ` set items \<Longrightarrow> map_of (copy_meta items m) k = map_of m k"
proof (induction items arbitrary: m)
  case Nil
  show ?case by (simp add: copy_meta_Nil)
next
  case (Cons kv items)
  from Cons.prems have "k \<noteq> fst kv" and "k \<notin> fst ` set items" by auto
  then show ?case by (simp add: copy_meta_Cons Cons.IH update_conv')
qed

lemma copy_meta_declared:
  assumes "distinct (map fst items)" and "map_of items k = Some v" and "v \<noteq> PDict"
    and "k \<noteq> ''base''" and "k \<noteq> ''full''" and "k \<noteq> ''altgr''"
  shows "map_of (copy_meta items m) k = Some v"
  using assms(1,2)
proof (induction items arbitrary: m)
  case Nil
  then show ?case by simp
next
  case (Cons kv items)
  show ?case
  proof (cases "fst kv = k")
    case True
    with Cons.prems have v: "snd kv = v" and "k \<notin> fst ` set items" by auto
    then show ?thesis using True assms(3-6) by (simp add: copy_meta_Cons copy_meta_other update_conv')
  next
    case False
    with Cons.prems have "distinct (map fst items)" and "map_of items k = Some v"
      by (auto split: if_splits)
    then show ?thesis by (simp add: copy_meta_Cons Cons.IH)
  qed
qed

lemma set_meta_geometry:
  "set_meta U cfg s = Inr s' \<Longrightarrow>
   map_of (meta s') ''geometry'' = map_of (copy_meta (cfg_meta cfg) (meta s)) ''geometry''"
  by (auto simp: set_meta_def Let_def raise_def update_conv' split: sum.splits)

lemma set_meta_error:
  "set_meta U cfg s = Inl ex \<Longrightarrow>
   fst ex = TypeError \<or> fst ex = AttributeError \<or> (fst ex = KeyError \<and> \<not> names_are_strings cfg)"
proof -
  have s: "py_slice8 U v = Inl e \<Longrightarrow> e = TypeError \<or> (e = KeyError \<and> v = PDict)" for v e
    by (cases v) (auto split: if_splits)
  have l: "py_lower U v = Inl e \<Longrightarrow> e = AttributeError" for v e by (cases v) auto
  assume "set_meta U cfg s = Inl ex"
  then show ?thesis
    by (auto simp: set_meta_def Let_def raise_def names_are_strings_def
          split: sum.splits option.splits dest: s l)
qed

lemma set_meta_strings:
  "names_are_strings cfg \<Longrightarrow> \<exists>s'. set_meta U cfg s = Inr s'"
proof -
  have i: "is_str v \<Longrightarrow> \<exists>x. v = PStr x" for v by (cases v) auto
  assume "names_are_strings cfg"
  then show ?thesis
    by (auto simp: names_are_strings_def set_meta_def Let_def split: option.splits dest!: i)
qed

lemma set_meta_default:
  assumes "map_of (cfg_meta cfg) ''geometry'' = None"
  shows "set_meta U (cfg\<lparr>cfg_meta := cfg_meta cfg @ [(''geometry'', PStr (ustr_of ''ISO''))]\<rparr>)
           (blank_layout st) = set_meta U cfg (blank_layout st)"
proof -
  from assms have n: "''geometry'' \<notin> fst ` set (cfg_meta cfg)" by (simp add: map_of_eq_None_iff)
  have "map_of (copy_meta (cfg_meta cfg) CONFIG) ''geometry'' = Some (PStr (ustr_of ''ISO''))"
    by (simp add: copy_meta_other [OF n]) (simp add: CONFIG_def)
  then have c: "copy_meta (cfg_meta cfg @ [(''geometry'', PStr (ustr_of ''ISO''))]) CONFIG
                  = copy_meta (cfg_meta cfg) CONFIG"
    by (simp add: copy_meta_append copy_meta_Cons copy_meta_Nil update_triv)
  have k: "(map_of [(''geometry'', PStr (ustr_of ''ISO''))] ++ map_of (cfg_meta cfg)) k
             = map_of (cfg_meta cfg) k"
    if "k \<noteq> ''geometry''" for k
    using that by (simp add: map_add_def split: option.split)
  show ?thesis
    by (simp add: set_meta_def c blank_layout_def k del: map_of.simps cong: option.case_cong)
qed

text \<open>
  Claim C3, amended.  A descriptor whose declared geometry is a string that is not a key of
  the geometry table makes the constructor raise, with nothing built, and the exception is
  not \<open>ConfigurationError\<close>; it is the \<open>KeyError\<close> of the table lookup whenever the descriptor's
  \<open>name\<close> and \<open>name8\<close> are strings or absent.  A descriptor with no declared geometry is
  compiled exactly as if it declared \<open>"ISO"\<close>.
\<close>

theorem compile_geometry:
  "(distinct (map fst (cfg_meta cfg)) \<and> map_of (cfg_meta cfg) ''geometry'' = Some (PStr g) \<and>
    G g = None
      \<longrightarrow> (\<exists>e. compile U G n ODK_ID cfg st = Inl (e, st) \<and> e \<noteq> ConfigurationError \<and>
               (names_are_strings cfg \<longrightarrow> e = KeyError))) \<and>
   (map_of (cfg_meta cfg') ''geometry'' = None
      \<longrightarrow> compile U G n ODK_ID cfg' st
          = compile U G n ODK_ID
              (cfg'\<lparr>cfg_meta := cfg_meta cfg' @ [(''geometry'', PStr (ustr_of ''ISO''))]\<rparr>) st)"
proof (intro conjI impI)
  assume a: "distinct (map fst (cfg_meta cfg)) \<and>
             map_of (cfg_meta cfg) ''geometry'' = Some (PStr g) \<and> G g = None"
  show "\<exists>e. compile U G n ODK_ID cfg st = Inl (e, st) \<and> e \<noteq> ConfigurationError \<and>
            (names_are_strings cfg \<longrightarrow> e = KeyError)"
  proof (cases "set_meta U cfg (blank_layout st)")
    case (Inl ex)
    from set_meta_Inl [OF Inl] have "snd ex = st" by (simp add: blank_layout_def)
    moreover from set_meta_error [OF Inl]
    have "fst ex = TypeError \<or> fst ex = AttributeError \<or> fst ex = KeyError" by blast
    moreover have "\<not> names_are_strings cfg" using Inl set_meta_strings [of cfg U "blank_layout st"]
      by auto
    ultimately show ?thesis
      by (cases ex) (auto simp: compile_def and_then_def Inl)
  next
    case (Inr s0)
    from set_meta_Inr [OF Inr] have st: "store s0 = st" by (auto simp: blank_layout_def)
    from a have "map_of (copy_meta (cfg_meta cfg) (meta (blank_layout st))) ''geometry''
                   = Some (PStr g)"
      by (intro copy_meta_declared) simp_all
    with set_meta_geometry [OF Inr] have "map_of (meta s0) ''geometry'' = Some (PStr g)" by simp
    with a st show ?thesis
      by (simp add: compile_def and_then_def Inr dict_get_def lookup_shape_def raise_def)
  qed
next
  assume "map_of (cfg_meta cfg') ''geometry'' = None"
  then show "compile U G n ODK_ID cfg' st
          = compile U G n ODK_ID
              (cfg'\<lparr>cfg_meta := cfg_meta cfg' @ [(''geometry'', PStr (ustr_of ''ISO''))]\<rparr>) st"
    by (simp add: compile_def set_meta_default parse_blocks_meta spacebar_table_meta)
qed

theorem compile_geometry_witness:
  "distinct (map fst [(''geometry'', PStr (ustr_of ''qwerty''))]) \<and>
   map_of [(''geometry'', PStr (ustr_of ''qwerty''))] ''geometry'' = Some (PStr (ustr_of ''qwerty'')) \<and>
   ex_G (ustr_of ''qwerty'') = None \<and>
   names_are_strings (sparse_cfg\<lparr>cfg_meta := [(''geometry'', PStr (ustr_of ''qwerty''))]\<rparr>) \<and>
   compile unicode_fragment ex_G 2 [42, 42]
       (sparse_cfg\<lparr>cfg_meta := [(''geometry'', PStr (ustr_of ''qwerty''))]\<rparr>) ex_catalog
     = Inl (KeyError, ex_catalog) \<and>
   map_of (cfg_meta sparse_cfg) ''geometry'' = None \<and>
   compile unicode_fragment ex_G 2 [42, 42] sparse_cfg ex_catalog
     = compile unicode_fragment ex_G 2 [42, 42]
         (sparse_cfg\<lparr>cfg_meta := cfg_meta sparse_cfg @ [(''geometry'', PStr (ustr_of ''ISO''))]\<rparr>)
         ex_catalog"
  using compile_geometry [of "sparse_cfg\<lparr>cfg_meta := [(''geometry'', PStr (ustr_of ''qwerty''))]\<rparr>"
      "ustr_of ''qwerty''" ex_G unicode_fragment 2 "[42, 42]" ex_catalog sparse_cfg]
  by (auto simp: sparse_cfg_def ex_G_def ustr_of_def names_are_strings_def)

section \<open>A key on the ODK plane with no BASE glyph\<close>

text \<open>
  Claim C4 states that a key with a glyph on the ODK plane and none on the BASE plane is
  skipped without an error.  On the sparse descriptor the constructor raises \<open>KeyError\<close>:
  line 248 reads \<open>self.layers[i][name]\<close> for every key of the ODK plane, with no test that
  the key is in layer \<open>i\<close>.  The store at that moment holds the copy of the one-dead-key
  entry, with \<open>alt_self\<close> and \<open>alt_space\<close> already set.
\<close>

theorem sparse_odk_key_error:
  "compile unicode_fragment ex_G 2 [42, 42] sparse_cfg ex_catalog =
     Inl (KeyError, ex_catalog @ [\<lparr>dk_char = [42, 42], base = [], alt = [],
                                   alt_self = Some [34], alt_space = Some [39]\<rparr>])"
  by (simp add: eval_parse eval_compile sparse_cfg_def)

section \<open>The store while parsing\<close>

lemma frame_ok_Inr [simp]: "frame_ok st P (Inr s) = P s"
  by (simp add: frame_ok_def)

lemma frame_ok_raise: "take (length st) (store s) = st \<Longrightarrow> frame_ok st P (raise e s)"
  by (simp add: frame_ok_def raise_def)

lemma frame_ok_InrD: "frame_ok st P r \<Longrightarrow> r = Inr s \<Longrightarrow> P s"
  by (simp add: frame_ok_def)

lemma frame_ok_case:
  assumes "frame_ok st P m" and "\<And>v. m = Inr v \<Longrightarrow> P v \<Longrightarrow> frame_ok st Q (f v)"
  shows "frame_ok st Q (case m of Inl e \<Rightarrow> Inl e | Inr v \<Rightarrow> f v)"
  using assms by (cases m) (auto simp: frame_ok_def)

lemma frame_ok_and_then:
  assumes "frame_ok st P m" and "\<And>v. m = Inr v \<Longrightarrow> P v \<Longrightarrow> frame_ok st Q (f v)"
  shows "frame_ok st Q (and_then m f)"
  unfolding and_then_def using assms by (rule frame_ok_case)

lemma frame_ok_mono: "frame_ok st P r \<Longrightarrow> (\<And>s. P s \<Longrightarrow> Q s) \<Longrightarrow> frame_ok st Q r"
  by (cases r) (auto simp: frame_ok_def)

lemma set_update_subset: "set (AList.update k v al) \<subseteq> insert (k, v) (set al)"
  by (induction al) auto

lemma frame_ok_lift:
  assumes "take (length st) (store s) = st" and "\<And>v. m = Inr v \<Longrightarrow> frame_ok st Q (f v)"
  shows "frame_ok st Q (case m of Inl e \<Rightarrow> raise e s | Inr v \<Rightarrow> f v)"
  using assms by (cases m) (auto simp: frame_ok_def raise_def)

lemma distinct_snd_update:
  "distinct (map snd al) \<Longrightarrow> v \<notin> snd ` set al \<Longrightarrow> distinct (map snd (AList.update k v al))"
proof (induction al)
  case Nil
  then show ?case by simp
next
  case (Cons p ps)
  have "set (AList.update k v ps) \<subseteq> insert (k, v) (set ps)"
    by (rule set_update_subset)
  then have "snd ` set (AList.update k v ps) \<subseteq> insert v (snd ` set ps)"
    by force
  with Cons show ?case by (cases p) auto
qed

lemma copy_dead_key_inv:
  assumes "parse_inv n st s" and "a < n" and "k = dk_char (store s ! a)"
  shows "parse_inv n st (copy_dead_key k a s)"
proof -
  let ?s' = "copy_dead_key k a s"
  from assms(1) have fr: "refs_fresh st s" and cp: "n \<le> length st \<Longrightarrow> copies_of n st s"
    by (simp_all add: parse_inv_def)
  have st': "store ?s' = store s @ [store s ! a]"
    and dk': "dead_keys ?s' = AList.update k (length (store s)) (dead_keys s)"
    by (simp_all add: copy_dead_key_def)
  have sub: "set (dead_keys ?s') \<subseteq> insert (k, length (store s)) (set (dead_keys s))"
    unfolding dk' by (rule set_update_subset)
  have notin: "length (store s) \<notin> snd ` set (dead_keys s)"
    using fr by (auto simp: refs_fresh_def)
  have r1: "length st \<le> length (store ?s')" using fr by (simp add: st' refs_fresh_def)
  have r2: "take (length st) (store ?s') = st" using fr by (simp add: st' refs_fresh_def)
  have r3: "distinct (map fst (dead_keys ?s'))"
    using fr by (simp add: dk' refs_fresh_def distinct_update)
  have r4: "distinct (map snd (dead_keys ?s'))"
    unfolding dk' using fr notin by (intro distinct_snd_update) (simp_all add: refs_fresh_def)
  have r5: "length st \<le> snd ka \<and> snd ka < length (store ?s')" if "ka \<in> set (dead_keys ?s')" for ka
  proof -
    from that sub have "ka = (k, length (store s)) \<or> ka \<in> set (dead_keys s)" by auto
    then show ?thesis using fr by (auto simp: st' refs_fresh_def)
  qed
  have "refs_fresh st ?s'"
    unfolding refs_fresh_def using r1 r2 r3 r4 r5 by blast
  moreover have "copies_of n st ?s'" if n: "n \<le> length st"
    unfolding copies_of_def
  proof
    fix ka assume "ka \<in> set (dead_keys ?s')"
    with sub consider "ka = (k, length (store s))" | "ka \<in> set (dead_keys s)" by auto
    then show "\<exists>c<n. dk_char (st ! c) = fst ka \<and> store ?s' ! snd ka = st ! c"
    proof cases
      case 1
      have "store s ! a = st ! a"
        using fr assms(2) n by (metis refs_fresh_def nth_take order_less_le_trans)
      moreover have "store ?s' ! length (store s) = store s ! a" by (simp add: st')
      ultimately have "dk_char (st ! a) = fst ka \<and> store ?s' ! snd ka = st ! a"
        using 1 assms(3) by simp
      with assms(2) show ?thesis by blast
    next
      case 2
      with cp [OF n] obtain c where "c < n" "dk_char (st ! c) = fst ka" "store s ! snd ka = st ! c"
        by (auto simp: copies_of_def)
      moreover from 2 fr have \<open>snd ka < length (store s)\<close> by (auto simp: refs_fresh_def)
      moreover have "store ?s' ! snd ka = store s ! snd ka"
        using \<open>snd ka < length (store s)\<close> by (simp add: st' nth_append)
      ultimately show ?thesis by auto
    qed
  qed
  ultimately show ?thesis by (simp add: parse_inv_def)
qed

lemma register_dead_key_inv:
  assumes "parse_inv n st s" and "a < n"
  shows "parse_inv n st (register_dead_key b sh a s)"
  using assms by (auto simp: register_dead_key_def Let_def intro!: copy_dead_key_inv)

lemma register_dead_keys_inv:
  assumes "parse_inv n st s"
  shows "parse_inv n st (register_dead_keys n b sh s)"
proof -
  have "parse_inv n st (fold (register_dead_key b sh) as s)" if "set as \<subseteq> {..<n}" for as
    using that assms
  proof (induction as arbitrary: s)
    case Nil
    then show ?case by simp
  next
    case (Cons a as)
    then show ?case by (simp add: register_dead_key_inv)
  qed
  from this [of "[0..<n]"] show ?thesis by (simp add: register_dead_keys_def subset_iff)
qed

lemma parse_inv_frame: "parse_inv n st s \<Longrightarrow> take (length st) (store s) = st"
  by (simp add: parse_inv_def refs_fresh_def)

lemma parse_inv_layers [simp]: "parse_inv n st (s\<lparr>layers := ls\<rparr>) = parse_inv n st s"
  by (simp add: parse_inv_def refs_fresh_def copies_of_def)

lemma parse_inv_has_altgr [simp]: "parse_inv n st (s\<lparr>has_altgr := b\<rparr>) = parse_inv n st s"
  by (simp add: parse_inv_def refs_fresh_def copies_of_def)

lemma layer_set_inv:
  "parse_inv n st s \<Longrightarrow> frame_ok st (parse_inv n st) (layer_set m key v s)"
  by (simp add: layer_set_def frame_ok_raise parse_inv_frame)

lemma maybe_layer_set_inv:
  "parse_inv n st s \<Longrightarrow>
     frame_ok st (parse_inv n st) (if c then layer_set m key v s else Inr s)"
  by (simp add: layer_set_inv)

lemma parse_key_inv:
  assumes "parse_inv n st s"
  shows "frame_ok st (parse_inv n st) (parse_key U n L bl sl i key s)"
  unfolding parse_key_def Let_def
  apply (rule frame_ok_lift [OF parse_inv_frame [OF assms]])
  apply (rule frame_ok_lift [OF parse_inv_frame [OF assms]])
  apply (rule frame_ok_case [OF maybe_layer_set_inv [OF assms]])
  apply (rule frame_ok_case [OF maybe_layer_set_inv])
   apply assumption
  apply (simp add: register_dead_keys_inv)
  done

lemma parse_keys_inv:
  "parse_inv n st s \<Longrightarrow> frame_ok st (parse_inv n st) (parse_keys U n L bl sl i ks s)"
proof (induction ks arbitrary: i s)
  case Nil
  then show ?case by simp
next
  case (Cons key ks)
  show ?case
    unfolding parse_keys.simps
    by (rule frame_ok_case [OF parse_key_inv [OF Cons.prems]]) (rule Cons.IH)
qed

lemma parse_rows_inv:
  "parse_inv n st s \<Longrightarrow> frame_ok st (parse_inv n st) (parse_rows U n T L j rws s)"
proof (induction rws arbitrary: j s)
  case Nil
  then show ?case by simp
next
  case (Cons r rws)
  show ?case
    unfolding parse_rows.simps
    apply (rule frame_ok_lift [OF parse_inv_frame [OF Cons.prems]])
    apply (rule frame_ok_lift [OF parse_inv_frame [OF Cons.prems]])
    apply (rule frame_ok_case [OF parse_keys_inv [OF Cons.prems]])
    apply (rule Cons.IH)
    apply assumption
    done
qed

lemma parse_template_inv:
  "parse_inv n st s \<Longrightarrow> frame_ok st (parse_inv n st) (parse_template U n T rws L s)"
  by (simp add: parse_template_def parse_rows_inv)

lemma parse_blocks_inv:
  assumes "parse_inv n st s"
  shows "frame_ok st (parse_inv n st) (parse_blocks U n cfg rws s)"
proof (cases "cfg_full cfg")
  case (Some full)
  show ?thesis
    unfolding parse_blocks_def Some option.case
    apply (rule frame_ok_and_then [OF parse_template_inv [OF assms]])
    apply (rule frame_ok_and_then [OF parse_template_inv])
     apply assumption
    apply simp
    done
next
  case None
  show ?thesis
  proof (cases "cfg_base cfg")
    case nb: None
    with None show ?thesis
      by (simp add: parse_blocks_def frame_ok_raise parse_inv_frame [OF assms])
  next
    case (Some base_block)
    show ?thesis
      unfolding parse_blocks_def None Some option.case
      apply (rule frame_ok_and_then [OF parse_template_inv [OF assms]])
      apply (rule frame_ok_and_then [OF parse_template_inv])
       apply assumption
      apply (cases "cfg_altgr cfg")
       apply (simp_all add: parse_template_inv)
      done
  qed
qed

lemma blank_layout_inv: "parse_inv n st (blank_layout st)"
  by (simp add: parse_inv_def refs_fresh_def copies_of_def blank_layout_def)

section \<open>The passes after parsing\<close>

lemma and_then_Inr: "and_then m f = Inr y \<longleftrightarrow> (\<exists>v. m = Inr v \<and> f v = Inr y)"
  by (cases m) (simp_all add: and_then_def)

lemma and_then_Inl: "and_then m f = Inl e \<longleftrightarrow> m = Inl e \<or> (\<exists>v. m = Inr v \<and> f v = Inl e)"
  by (cases m) (simp_all add: and_then_def)

lemma dict_get_Inr: "dict_get d k s = Inr v \<longleftrightarrow> map_of d k = Some v"
  by (simp add: dict_get_def raise_def split: option.split)

lemma dict_get_Inl: "dict_get d k s = Inl ex \<longleftrightarrow> map_of d k = None \<and> ex = (KeyError, store s)"
  by (auto simp: dict_get_def raise_def split: option.split)

lemma dict_get_frame:
  "take (length st) (store s) = st \<Longrightarrow> frame_ok st (\<lambda>v. True) (dict_get d k s)"
  by (simp add: dict_get_def frame_ok_def raise_def split: option.split)

lemma layers_only_refl [simp]: "layers_only s s"
  by (simp add: layers_only_def)

lemma layers_only_trans: "layers_only s s1 \<Longrightarrow> layers_only s1 s2 \<Longrightarrow> layers_only s s2"
  by (metis layers_only_def layout.surjective layout.update_convs(1))

lemma layer_set_layers_only:
  "take (length st) (store s) = st \<Longrightarrow> frame_ok st (layers_only s) (layer_set m key v s)"
  by (simp add: layer_set_def frame_ok_def raise_def layers_only_def)

lemma layers_only_store: "layers_only s s' \<Longrightarrow> store s' = store s"
  by (metis layers_only_def layout.select_convs(7) layout.surjective layout.update_convs(1))

lemma layer_set_Inr_iff:
  "layer_set m key v s = Inr s' \<longleftrightarrow>
     m < length (layers s) \<and> s' = s\<lparr>layers := (layers s)[m := AList.update key v (layers s ! m)]\<rparr>"
  by (auto simp: layer_set_def raise_def)

lemma layer_set_Inl_iff:
  "layer_set m key v s = Inl ex \<longleftrightarrow> \<not> m < length (layers s) \<and> ex = (IndexError, store s)"
  by (auto simp: layer_set_def raise_def)

lemma set_spacebar_Inr: "set_spacebar spc s = Inr s' \<Longrightarrow> layers_only s s'"
  by (auto simp: set_spacebar_def and_then_Inr dict_get_Inr layer_set_Inr_iff layers_only_def
        split: if_splits)

lemma set_spacebar_Inl: "set_spacebar spc s = Inl ex \<Longrightarrow> snd ex = store s"
  by (auto simp: set_spacebar_def and_then_Inr and_then_Inl dict_get_Inr dict_get_Inl
        layer_set_Inr_iff layer_set_Inl_iff split: if_splits)

lemma set_spacebar_odk:
  assumes "set_spacebar spc s = Inr s'"
  shows "map_of (layers s' ! ODK) ''spce'' = map_of spc ''1dk'' \<and> map_of spc ''1dk'' \<noteq> None"
  using assms
  by (auto simp: set_spacebar_def and_then_Inr dict_get_Inr layer_set_Inr_iff update_conv'
        BASE_def SHIFT_def ODK_def ODK_SHIFT_def ALTGR_def ALTGR_SHIFT_def split: if_splits)

lemma index_dead_keys_eq: "\<exists>ix. index_dead_keys n s = s\<lparr>dk_index := ix\<rparr>"
proof -
  have "\<exists>ix. fold (\<lambda>a s'. if dk_char (store s' ! a) \<in> fst ` set (dead_keys s')
                    then s'\<lparr>dk_index := dk_index s' @ [dk_char (store s' ! a)]\<rparr> else s') as s
            = s\<lparr>dk_index := ix\<rparr>" for as
  proof (induction as arbitrary: s)
    case Nil
    have "s = s\<lparr>dk_index := dk_index s\<rparr>" by simp
    then show ?case by (metis fold_simps(1))
  next
    case (Cons a as)
    show ?case
    proof (cases "dk_char (store s ! a) \<in> fst ` set (dead_keys s)")
      case True
      from Cons.IH [of "s\<lparr>dk_index := dk_index s @ [dk_char (store s ! a)]\<rparr>"]
      show ?thesis using True by auto
    next
      case False
      with Cons.IH [of s] show ?thesis by auto
    qed
  qed
  then show ?thesis by (simp add: index_dead_keys_def)
qed

lemma prune_loop_upt:
  assumes "prune_loop ls b a [m..<length b] (ub, ua) = Inr r"
  shows "r = (ub @ map fst (filter (\<lambda>p. layer_has_char ls [fst p] BASE \<or> layer_has_char ls [fst p] SHIFT)
                       (drop m (zip b a))),
              ua @ map snd (filter (\<lambda>p. layer_has_char ls [fst p] BASE \<or> layer_has_char ls [fst p] SHIFT)
                       (drop m (zip b a))))"
  using assms
proof (induction "length b - m" arbitrary: m ub ua)
  case 0
  then show ?case by simp
next
  case (Suc d)
  then have m: "m < length b" by simp
  then have upt: "[m..<length b] = m # [Suc m..<length b]" by (simp add: upt_rec)
  let ?used = "layer_has_char ls [b ! m] BASE \<or> layer_has_char ls [b ! m] SHIFT"
  show ?case
  proof (cases ?used)
    case True
    with Suc.prems upt obtain x where x: "py_get a (int m) = Inr x"
      and rest: "prune_loop ls b a [Suc m..<length b] (ub @ [b ! m], ua @ [x]) = Inr r"
      by (cases "py_get a (int m)") auto
    from x have ma: "m < length a" and xa: "x = a ! m"
      by (auto simp: py_get_def py_index_def split: if_splits)
    have dr: "drop m (zip b a) = (b ! m, a ! m) # drop (Suc m) (zip b a)"
      using m ma Cons_nth_drop_Suc [of m "zip b a"] by simp
    from Suc.hyps(1) [OF _ rest] Suc.hyps(2) True show ?thesis
      by (simp add: dr xa)
  next
    case False
    with Suc.prems upt have rest: "prune_loop ls b a [Suc m..<length b] (ub, ua) = Inr r"
      by auto
    have dr: "filter (\<lambda>p. layer_has_char ls [fst p] BASE \<or> layer_has_char ls [fst p] SHIFT) (drop m (zip b a))
       = filter (\<lambda>p. layer_has_char ls [fst p] BASE \<or> layer_has_char ls [fst p] SHIFT) (drop (Suc m) (zip b a))"
    proof (cases "m < length a")
      case True
      with m have "drop m (zip b a) = (b ! m, a ! m) # drop (Suc m) (zip b a)"
        using Cons_nth_drop_Suc [of m "zip b a"] by simp
      with False show ?thesis by simp
    next
      case False
      then show ?thesis by simp
    qed
    from Suc.hyps(1) [OF _ rest] Suc.hyps(2) show ?thesis
      by (simp add: dr)
  qed
qed

lemma prune_dead_key_Inr:
  assumes "prune_dead_key a s = Inr s'"
  shows "s' = s\<lparr>store := (store s)[a := pruned (layers s) (store s ! a)]\<rparr>"
proof -
  let ?dk = "store s ! a"
  from assms obtain used where u: "prune_loop (layers s) (base ?dk) (alt ?dk) [0..<length (base ?dk)] ([], []) = Inr used"
    and s': "s' = s\<lparr>store := (store s)[a := ?dk\<lparr>base := fst used, alt := snd used\<rparr>]\<rparr>"
    by (cases "prune_loop (layers s) (base ?dk) (alt ?dk) [0..<length (base ?dk)] ([], [])")
       (auto simp: prune_dead_key_def Let_def raise_def)
  from prune_loop_upt [OF u] show ?thesis
    by (simp add: s' pruned_def kept_pairs_def)
qed

lemma prune_dead_key_Inl: "prune_dead_key a s = Inl ex \<Longrightarrow> snd ex = store s"
  by (auto simp: prune_dead_key_def Let_def raise_def split: sum.splits)

lemma store_only_sel:
  "store_only s s' \<Longrightarrow> layers s' = layers s \<and> dead_keys s' = dead_keys s \<and> has_1dk s' = has_1dk s"
  by (metis store_only_def layout.select_convs(1,2,6) layout.surjective layout.update_convs(7))

lemma prune_dead_keys_Inr:
  assumes "prune_dead_keys dks s = Inr s'" and "distinct (map snd dks)"
    and "\<forall>ka \<in> set dks. snd ka < length (store s)"
  shows "store_only s s' \<and>
         (\<forall>ka \<in> set dks. store s' ! snd ka = pruned (layers s) (store s ! snd ka)) \<and>
         (\<forall>a. a \<notin> snd ` set dks \<longrightarrow> store s' ! a = store s ! a)"
  using assms
proof (induction dks arbitrary: s)
  case Nil
  then show ?case by (simp add: store_only_def)
next
  case (Cons ka dks)
  obtain k a where ka: "ka = (k, a)" by (cases ka)
  from Cons.prems(1) ka obtain s1 where s1: "prune_dead_key a s = Inr s1"
    and rest: "prune_dead_keys dks s1 = Inr s'"
    by (cases "prune_dead_key a s") auto
  from prune_dead_key_Inr [OF s1]
  have s1eq: "s1 = s\<lparr>store := (store s)[a := pruned (layers s) (store s ! a)]\<rparr>" .
  then have l1: "layers s1 = layers s" and len1: "length (store s1) = length (store s)"
    and st1: "store s1 = (store s)[a := pruned (layers s) (store s ! a)]" by simp_all
  from Cons.prems(2,3) have d: "distinct (map snd dks)"
    and b: "\<forall>ka \<in> set dks. snd ka < length (store s1)" by (simp_all add: len1)
  from Cons.IH [OF rest d b]
  have so: "store_only s1 s'"
    and pr: "\<forall>ka \<in> set dks. store s' ! snd ka = pruned (layers s1) (store s1 ! snd ka)"
    and un: "\<forall>a. a \<notin> snd ` set dks \<longrightarrow> store s' ! a = store s1 ! a" by blast+
  from Cons.prems(2) ka have anot: "a \<notin> snd ` set dks" by force
  from Cons.prems(3) ka have alen: "a < length (store s)" by simp
  have 1: "store_only s s'"
    using so s1eq unfolding store_only_def by (metis len1 layout.update_convs(7) layout.surjective)
  have 2: "store s' ! snd x = pruned (layers s) (store s ! snd x)" if "x \<in> set (ka # dks)" for x
  proof (cases "x = ka")
    case True
    with un anot ka have "store s' ! snd x = store s1 ! a" by simp
    with alen True ka show ?thesis by (simp add: st1)
  next
    case False
    with that have x: "x \<in> set dks" by simp
    with anot have "snd x \<noteq> a" by force
    with pr x show ?thesis by (simp add: l1 st1)
  qed
  have 3: "store s' ! a' = store s ! a'" if "a' \<notin> snd ` set (ka # dks)" for a'
  proof -
    from that ka have "a' \<noteq> a" "a' \<notin> snd ` set dks" by auto
    with un show ?thesis by (simp add: st1)
  qed
  from 1 2 3 show ?case by blast
qed

lemma prune_dead_keys_Inl:
  assumes "prune_dead_keys dks s = Inl ex" and "take m (store s) = st"
    and "\<forall>ka \<in> set dks. m \<le> snd ka"
  shows "take m (snd ex) = st"
  using assms
proof (induction dks arbitrary: s)
  case Nil
  then show ?case by simp
next
  case (Cons ka dks)
  obtain k a where ka: "ka = (k, a)" by (cases ka)
  show ?case
  proof (cases "prune_dead_key a s")
    case (Inl e)
    with Cons.prems ka show ?thesis by (auto dest: prune_dead_key_Inl)
  next
    case (Inr s1)
    with Cons.prems(1) ka have rest: "prune_dead_keys dks s1 = Inl ex" by simp
    from prune_dead_key_Inr [OF Inr] Cons.prems(2,3) ka
    have "take m (store s1) = st" by simp
    from Cons.IH [OF rest this] Cons.prems(3) show ?thesis by simp
  qed
qed

lemma odk_copy_layer_Inr:
  assumes "odk_copy_layer ODK_ID a i items s = Inr s'" and "a < length (store s)"
  shows "s' = s\<lparr>store := (store s)[a := (store s ! a)
                  \<lparr>base := base (store s ! a) @ odk_base ODK_ID (layers s ! i) items,
                   alt := alt (store s ! a) @ odk_alt ODK_ID (layers s ! i) items\<rparr>]\<rparr> \<and>
         (\<forall>item \<in> set items. map_of (layers s ! i) (fst item) \<noteq> None)"
  using assms
proof (induction items arbitrary: s)
  case Nil
  then show ?case by (simp add: odk_base_def odk_alt_def odk_entries_def)
next
  case (Cons item items)
  obtain name alt_char where item: "item = (name, alt_char)" by (cases item)
  from Cons.prems(1) item obtain base_char where bc: "map_of (layers s ! i) name = Some base_char"
    by (cases "map_of (layers s ! i) name") (simp_all add: raise_def)
  let ?c = "name \<noteq> ''spce'' \<and> base_char \<noteq> ODK_ID"
  let ?s1 = "if ?c then s\<lparr>store := (store s)[a := (store s ! a)
                      \<lparr>base := base (store s ! a) @ base_char,
                       alt := alt (store s ! a) @ alt_char\<rparr>]\<rparr> else s"
  from Cons.prems(1) item bc have rest: "odk_copy_layer ODK_ID a i items ?s1 = Inr s'"
    by simp
  have l1: "layers ?s1 = layers s" and len1: "a < length (store ?s1)"
    using Cons.prems(2) by simp_all
  from Cons.IH [OF rest len1] have
    s': "s' = ?s1\<lparr>store := (store ?s1)[a := (store ?s1 ! a)
                  \<lparr>base := base (store ?s1 ! a) @ odk_base ODK_ID (layers s ! i) items,
                   alt := alt (store ?s1 ! a) @ odk_alt ODK_ID (layers s ! i) items\<rparr>]\<rparr>"
    and dom: "\<forall>item \<in> set items. map_of (layers s ! i) (fst item) \<noteq> None"
    unfolding l1 by blast+
  show ?case
  proof (cases ?c)
    case True
    then have e: "odk_base ODK_ID (layers s ! i) ((name, alt_char) # items)
                    = base_char @ odk_base ODK_ID (layers s ! i) items"
      "odk_alt ODK_ID (layers s ! i) ((name, alt_char) # items)
                    = alt_char @ odk_alt ODK_ID (layers s ! i) items"
      using bc item by (simp_all add: odk_base_def odk_alt_def odk_entries_def)
    from True have "?s1 = s\<lparr>store := (store s)[a := (store s ! a)
                      \<lparr>base := base (store s ! a) @ base_char,
                       alt := alt (store s ! a) @ alt_char\<rparr>]\<rparr>" by simp
    with s' Cons.prems(2) have "s' = s\<lparr>store := (store s)[a := (store s ! a)
                  \<lparr>base := base (store s ! a) @ base_char @ odk_base ODK_ID (layers s ! i) items,
                   alt := alt (store s ! a) @ alt_char @ odk_alt ODK_ID (layers s ! i) items\<rparr>]\<rparr>"
      by simp
    with dom bc item show ?thesis by (simp add: e)
  next
    case False
    then have e: "odk_base ODK_ID (layers s ! i) ((name, alt_char) # items)
                    = odk_base ODK_ID (layers s ! i) items"
      "odk_alt ODK_ID (layers s ! i) ((name, alt_char) # items)
                    = odk_alt ODK_ID (layers s ! i) items"
      using bc item by (auto simp: odk_base_def odk_alt_def odk_entries_def)
    from False have "?s1 = s" by auto
    with s' have "s' = s\<lparr>store := (store s)[a := (store s ! a)
                  \<lparr>base := base (store s ! a) @ odk_base ODK_ID (layers s ! i) items,
                   alt := alt (store s ! a) @ odk_alt ODK_ID (layers s ! i) items\<rparr>]\<rparr>"
      by simp
    with dom bc item show ?thesis by (simp add: e)
  qed
qed

lemma odk_copy_layer_take:
  assumes "odk_copy_layer ODK_ID a i items s = Inr s'" and "take m (store s) = st" and "m \<le> a"
  shows "take m (store s') = st"
  using assms
proof (induction items arbitrary: s)
  case Nil
  then show ?case by simp
next
  case (Cons item items)
  obtain name alt_char where item: "item = (name, alt_char)" by (cases item)
  from Cons.prems(1) item obtain base_char where bc: "map_of (layers s ! i) name = Some base_char"
    by (cases "map_of (layers s ! i) name") (simp_all add: raise_def)
  let ?s1 = "if name \<noteq> ''spce'' \<and> base_char \<noteq> ODK_ID then s\<lparr>store := (store s)[a := (store s ! a)
                      \<lparr>base := base (store s ! a) @ base_char,
                       alt := alt (store s ! a) @ alt_char\<rparr>]\<rparr> else s"
  from Cons.prems(1) item bc have rest: "odk_copy_layer ODK_ID a i items ?s1 = Inr s'"
    by simp
  have "take m (store ?s1) = st" using Cons.prems(2,3) by simp
  from Cons.IH [OF rest this Cons.prems(3)] show ?case .
qed

lemma odk_copy_layer_Inl:
  assumes "odk_copy_layer ODK_ID a i items s = Inl ex" and "take m (store s) = st" and "m \<le> a"
  shows "take m (snd ex) = st"
  using assms
proof (induction items arbitrary: s)
  case Nil
  then show ?case by simp
next
  case (Cons item items)
  obtain name alt_char where item: "item = (name, alt_char)" by (cases item)
  show ?case
  proof (cases "map_of (layers s ! i) name")
    case None
    with Cons.prems item show ?thesis by (auto simp: raise_def)
  next
    case (Some base_char)
    let ?s1 = "if name \<noteq> ''spce'' \<and> base_char \<noteq> ODK_ID then s\<lparr>store := (store s)[a := (store s ! a)
                      \<lparr>base := base (store s ! a) @ base_char,
                       alt := alt (store s ! a) @ alt_char\<rparr>]\<rparr> else s"
    from Cons.prems(1) item Some have rest: "odk_copy_layer ODK_ID a i items ?s1 = Inl ex"
      by simp
    have "take m (store ?s1) = st" using Cons.prems(2,3) by simp
    from Cons.IH [OF rest this Cons.prems(3)] show ?thesis .
  qed
qed

lemma set_alt_self_Inr:
  assumes "set_alt_self ODK_ID a s = Inr s'"
  shows "s' = s\<lparr>store := (store s)[a := (store s ! a)
            \<lparr>alt_self := (case find (\<lambda>kv. snd kv = ODK_ID) (layers s ! BASE) of
                            None \<Rightarrow> alt_self (store s ! a)
                          | Some kv \<Rightarrow> map_of (layers s ! ODK) (fst kv))\<rparr>]\<rparr>"
  using assms
  by (auto simp: set_alt_self_def raise_def split: option.splits)

lemma set_alt_self_Inl:
  "set_alt_self ODK_ID a s = Inl ex \<Longrightarrow> snd ex = store s"
  by (auto simp: set_alt_self_def raise_def split: option.splits)

lemma odk_pass_None: "map_of (dead_keys s) ODK_ID = None \<Longrightarrow> odk_pass ODK_ID spc s = Inr s"
  by (simp add: odk_pass_def)

lemma store_upd_eq: "s' = s\<lparr>store := X\<rparr> \<Longrightarrow> store s' = X \<and> s' = s\<lparr>store := store s'\<rparr>"
  by simp

lemma odk_pass_Inr:
  assumes "odk_pass ODK_ID spc s = Inr s'" and "map_of (dead_keys s) ODK_ID = Some a"
    and "a < length (store s)"
  shows "s' = s\<lparr>has_1dk := True,
                 store := (store s)[a := odk_object ODK_ID spc (layers s) (store s ! a)]\<rparr> \<and>
         map_of spc ''1dk'' \<noteq> None \<and>
         (\<forall>item \<in> set (layers s ! ODK). map_of (layers s ! BASE) (fst item) \<noteq> None) \<and>
         (\<forall>item \<in> set (layers s ! ODK_SHIFT). map_of (layers s ! SHIFT) (fst item) \<noteq> None)"
proof -
  from assms(1,2) obtain v where v: "map_of spc ''1dk'' = Some v"
    by (auto simp: odk_pass_def and_then_Inr dict_get_Inr)
  define s0 where "s0 = s\<lparr>has_1dk := True, store := (store s)[a := (store s ! a)\<lparr>alt_space := Some v\<rparr>]\<rparr>"
  from assms(1,2) v obtain s1 s2 where s1: "set_alt_self ODK_ID a s0 = Inr s1"
    and s2: "odk_copy_layer ODK_ID a BASE (layers s1 ! (BASE + ODK)) s1 = Inr s2"
    and s3: "odk_copy_layer ODK_ID a SHIFT (layers s2 ! (SHIFT + ODK)) s2 = Inr s'"
    by (auto simp: odk_pass_def and_then_Inr dict_get_Inr s0_def)
  have sum: "BASE + ODK = ODK" "SHIFT + ODK = ODK_SHIFT"
    by (simp_all add: BASE_def SHIFT_def ODK_def ODK_SHIFT_def)
  note e1 = set_alt_self_Inr [OF s1]
  have a1: "a < length (store s1)" and l1: "layers s1 = layers s"
    using assms(3) by (simp_all add: e1 s0_def)
  note e2 = odk_copy_layer_Inr [OF s2 a1, unfolded l1 sum]
  from e2 have e2': "s2 = s1\<lparr>store := (store s1)[a := (store s1 ! a)
                  \<lparr>base := base (store s1 ! a) @ odk_base ODK_ID (layers s ! BASE) (layers s ! ODK),
                   alt := alt (store s1 ! a) @ odk_alt ODK_ID (layers s ! BASE) (layers s ! ODK)\<rparr>]\<rparr>"
    by blast
  have a2: "a < length (store s2)" and l2: "layers s2 = layers s"
    using a1 l1 by (simp_all add: e2')
  note e3 = odk_copy_layer_Inr [OF s3 a2, unfolded l2 sum]
  from e3 have e3': "s' = s2\<lparr>store := (store s2)[a := (store s2 ! a)
                  \<lparr>base := base (store s2 ! a) @ odk_base ODK_ID (layers s ! SHIFT) (layers s ! ODK_SHIFT),
                   alt := alt (store s2 ! a) @ odk_alt ODK_ID (layers s ! SHIFT) (layers s ! ODK_SHIFT)\<rparr>]\<rparr>"
    by blast
  let ?self = "case find (\<lambda>kv. snd kv = ODK_ID) (layers s ! BASE) of
                 None \<Rightarrow> alt_self (store s ! a)
               | Some kv \<Rightarrow> map_of (layers s ! ODK) (fst kv)"
  have s0: "store s0 = (store s)[a := (store s ! a)\<lparr>alt_space := Some v\<rparr>]" "layers s0 = layers s"
    by (simp_all add: s0_def)
  have "store s1 = (store s0)[a := (store s0 ! a)
            \<lparr>alt_self := (case find (\<lambda>kv. snd kv = ODK_ID) (layers s0 ! BASE) of
                            None \<Rightarrow> alt_self (store s0 ! a)
                          | Some kv \<Rightarrow> map_of (layers s0 ! ODK) (fst kv))\<rparr>]"
    using store_upd_eq [OF e1] by blast
  then have st1: "store s1 = (store s)[a := (store s ! a)\<lparr>alt_space := Some v, alt_self := ?self\<rparr>]"
    using assms(3) by (simp add: s0 cong: option.case_cong)
  have r1: "s1 = s\<lparr>has_1dk := True, store := store s1\<rparr>"
  proof -
    have "s1 = s0\<lparr>store := store s1\<rparr>" using store_upd_eq [OF e1] by blast
    also have "\<dots> = s\<lparr>has_1dk := True, store := store s1\<rparr>" by (simp add: s0_def)
    finally show ?thesis .
  qed
  have "store s2 = (store s1)[a := (store s1 ! a)
                  \<lparr>base := base (store s1 ! a) @ odk_base ODK_ID (layers s ! BASE) (layers s ! ODK),
                   alt := alt (store s1 ! a) @ odk_alt ODK_ID (layers s ! BASE) (layers s ! ODK)\<rparr>]"
    using store_upd_eq [OF e2'] by blast
  then have st2: "store s2 = (store s)[a := (store s ! a)\<lparr>alt_space := Some v, alt_self := ?self,
        base := base (store s ! a) @ odk_base ODK_ID (layers s ! BASE) (layers s ! ODK),
        alt := alt (store s ! a) @ odk_alt ODK_ID (layers s ! BASE) (layers s ! ODK)\<rparr>]"
    using assms(3) by (simp add: st1)
  have r2: "s2 = s\<lparr>has_1dk := True, store := store s2\<rparr>"
  proof -
    have "s2 = s1\<lparr>store := store s2\<rparr>" using store_upd_eq [OF e2'] by blast
    also have "\<dots> = s\<lparr>has_1dk := True, store := store s2\<rparr>" by (subst r1) simp
    finally show ?thesis .
  qed
  have "store s' = (store s2)[a := (store s2 ! a)
                  \<lparr>base := base (store s2 ! a) @ odk_base ODK_ID (layers s ! SHIFT) (layers s ! ODK_SHIFT),
                   alt := alt (store s2 ! a) @ odk_alt ODK_ID (layers s ! SHIFT) (layers s ! ODK_SHIFT)\<rparr>]"
    using store_upd_eq [OF e3'] by blast
  then have st3: "store s' = (store s)[a := odk_object ODK_ID spc (layers s) (store s ! a)]"
    using assms(3) by (simp add: st2 odk_object_def v)
  have r3: "s' = s\<lparr>has_1dk := True, store := store s'\<rparr>"
  proof -
    have "s' = s2\<lparr>store := store s'\<rparr>" using store_upd_eq [OF e3'] by blast
    also have "\<dots> = s\<lparr>has_1dk := True, store := store s'\<rparr>" by (subst r2) simp
    finally show ?thesis .
  qed
  from e2 e3 have dom: "\<forall>item \<in> set (layers s ! ODK). map_of (layers s ! BASE) (fst item) \<noteq> None"
    "\<forall>item \<in> set (layers s ! ODK_SHIFT). map_of (layers s ! SHIFT) (fst item) \<noteq> None"
    by blast+
  from r3 st3 have "s' = s\<lparr>has_1dk := True,
                 store := (store s)[a := odk_object ODK_ID spc (layers s) (store s ! a)]\<rparr>"
    by simp
  with v dom show ?thesis by simp
qed

lemma odk_pass_Inl:
  assumes "odk_pass ODK_ID spc s = Inl ex" and "take m (store s) = st"
    and "\<forall>ka \<in> set (dead_keys s). m \<le> snd ka"
  shows "take m (snd ex) = st"
proof (cases "map_of (dead_keys s) ODK_ID")
  case None
  with assms(1) show ?thesis by (simp add: odk_pass_def)
next
  case (Some a)
  then have "(ODK_ID, a) \<in> set (dead_keys s)" by (rule map_of_SomeD)
  with assms(3) have ma: "m \<le> a" by force
  from assms(1) Some obtain v where v: "map_of spc ''1dk'' = Some v \<or> ex = (KeyError, store s)"
    by (auto simp: odk_pass_def and_then_Inl dict_get_Inl dict_get_Inr)
  let ?s0 = "\<lambda>v. s\<lparr>has_1dk := True, store := (store s)[a := (store s ! a)\<lparr>alt_space := Some v\<rparr>]\<rparr>"
  have t0: "take m (store (?s0 v)) = st" for v using assms(2) ma by simp
  from assms(1) Some consider
      "ex = (KeyError, store s)"
    | v where "set_alt_self ODK_ID a (?s0 v) = Inl ex"
    | v s1 where "set_alt_self ODK_ID a (?s0 v) = Inr s1"
        "odk_copy_layer ODK_ID a BASE (layers s1 ! (BASE + ODK)) s1 = Inl ex"
    | v s1 s2 where "set_alt_self ODK_ID a (?s0 v) = Inr s1"
        "odk_copy_layer ODK_ID a BASE (layers s1 ! (BASE + ODK)) s1 = Inr s2"
        "odk_copy_layer ODK_ID a SHIFT (layers s2 ! (SHIFT + ODK)) s2 = Inl ex"
    by (auto simp: odk_pass_def and_then_Inl and_then_Inr dict_get_Inl dict_get_Inr)
  then show ?thesis
  proof cases
    case 1
    with assms(2) show ?thesis by simp
  next
    case 2
    from set_alt_self_Inl [OF 2] t0 show ?thesis by simp
  next
    case 3
    from set_alt_self_Inr [OF 3(1)] t0 [of v] ma have "take m (store s1) = st" by simp
    from odk_copy_layer_Inl [OF 3(2) this ma] show ?thesis .
  next
    case 4
    from set_alt_self_Inr [OF 4(1)] t0 [of v] ma have t1: "take m (store s1) = st" by simp
    from odk_copy_layer_take [OF 4(2) t1 ma] have "take m (store s2) = st" .
    from odk_copy_layer_Inl [OF 4(3) this ma] show ?thesis .
  qed
qed

section \<open>The constructor as a whole\<close>

lemma parse_inv_meta [simp]: "parse_inv n st (s\<lparr>meta := m\<rparr>) = parse_inv n st s"
  by (simp add: parse_inv_def refs_fresh_def copies_of_def)

lemma parse_inv_dk_index [simp]: "parse_inv n st (s\<lparr>dk_index := ix\<rparr>) = parse_inv n st s"
  by (simp add: parse_inv_def refs_fresh_def copies_of_def)

lemma set_meta_inv:
  assumes "set_meta U cfg (blank_layout st) = Inr s0"
  shows "parse_inv n st s0"
proof -
  from set_meta_Inr [OF assms] obtain m where "s0 = (blank_layout st)\<lparr>meta := m\<rparr>" by blast
  then show ?thesis by (simp add: blank_layout_inv)
qed

lemma compile_Inr:
  assumes "compile U G n ODK_ID cfg st = Inr s"
  shows "\<exists>s0 (sh :: shape) s1 s2 s3. parse_inv n st s0 \<and>
           parse_blocks U n cfg (shape_rows sh) s0 = Inr s1 \<and>
           set_spacebar (spacebar_table cfg) s1 = Inr s2 \<and>
           prune_dead_keys (dead_keys s2) (index_dead_keys n s2) = Inr s3 \<and>
           odk_pass ODK_ID (spacebar_table cfg) s3 = Inr s"
proof -
  from assms obtain s0 :: layout and g and sh :: shape and s1 s2 s3 :: layout
    where m: "set_meta U cfg (blank_layout st) = Inr s0"
      and "lookup_shape G g s0 = Inr sh"
      and "parse_blocks U n cfg (shape_rows sh) s0 = Inr s1"
      and "set_spacebar (spacebar_table cfg) s1 = Inr s2"
      and "prune_dead_keys (dead_keys s2) (index_dead_keys n s2) = Inr s3"
      and "odk_pass ODK_ID (spacebar_table cfg) s3 = Inr s"
    unfolding compile_def and_then_Inr by blast
  with set_meta_inv [OF m, of n] show ?thesis by blast
qed

lemma compile_Inl:
  assumes "compile U G n ODK_ID cfg st = Inl ex"
  shows "take (length st) (snd ex) = st"
proof -
  from assms consider
      "set_meta U cfg (blank_layout st) = Inl ex"
    | s0 :: layout where "set_meta U cfg (blank_layout st) = Inr s0"
        "dict_get (meta s0) ''geometry'' s0 = Inl ex"
    | s0 :: layout and g where "set_meta U cfg (blank_layout st) = Inr s0"
        "lookup_shape G g s0 = Inl ex"
    | s0 :: layout and sh :: shape where "set_meta U cfg (blank_layout st) = Inr s0"
        "parse_blocks U n cfg (shape_rows sh) s0 = Inl ex"
    | s0 :: layout and sh :: shape and s1 :: layout where "set_meta U cfg (blank_layout st) = Inr s0"
        "parse_blocks U n cfg (shape_rows sh) s0 = Inr s1"
        "set_spacebar (spacebar_table cfg) s1 = Inl ex"
    | s0 :: layout and sh :: shape and s1 s2 :: layout where "set_meta U cfg (blank_layout st) = Inr s0"
        "parse_blocks U n cfg (shape_rows sh) s0 = Inr s1"
        "set_spacebar (spacebar_table cfg) s1 = Inr s2"
        "prune_dead_keys (dead_keys s2) (index_dead_keys n s2) = Inl ex"
    | s0 :: layout and sh :: shape and s1 s2 s3 :: layout where "set_meta U cfg (blank_layout st) = Inr s0"
        "parse_blocks U n cfg (shape_rows sh) s0 = Inr s1"
        "set_spacebar (spacebar_table cfg) s1 = Inr s2"
        "prune_dead_keys (dead_keys s2) (index_dead_keys n s2) = Inr s3"
        "odk_pass ODK_ID (spacebar_table cfg) s3 = Inl ex"
    unfolding compile_def and_then_Inl and_then_Inr by blast
  then show ?thesis
  proof cases
    case 1
    from set_meta_Inl [OF 1] show ?thesis by (simp add: blank_layout_def)
  next
    case 2
    from set_meta_inv [OF 2(1)] have "parse_inv n st s0" .
    with 2(2) show ?thesis by (auto simp: dict_get_Inl parse_inv_frame)
  next
    case 3
    from set_meta_inv [OF 3(1)] have "parse_inv n st s0" .
    with lookup_shape_Inl [OF 3(2)] show ?thesis by (simp add: parse_inv_frame)
  next
    case 4
    have "frame_ok st (parse_inv n st) (parse_blocks U n cfg (shape_rows sh) s0)"
      by (rule parse_blocks_inv [OF set_meta_inv [OF 4(1)]])
    with 4(2) show ?thesis by (simp add: frame_ok_def)
  next
    case 5
    have "frame_ok st (parse_inv n st) (parse_blocks U n cfg (shape_rows sh) s0)"
      by (rule parse_blocks_inv [OF set_meta_inv [OF 5(1)]])
    with 5(2) have "parse_inv n st s1" by (simp add: frame_ok_def)
    with set_spacebar_Inl [OF 5(3)] show ?thesis by (simp add: parse_inv_frame)
  next
    case 6
    have "frame_ok st (parse_inv n st) (parse_blocks U n cfg (shape_rows sh) s0)"
      by (rule parse_blocks_inv [OF set_meta_inv [OF 6(1)]])
    with 6(2) have i1: "parse_inv n st s1" by (simp add: frame_ok_def)
    from set_spacebar_Inr [OF 6(3)] have s2: "s2 = s1\<lparr>layers := layers s2\<rparr>"
      by (simp add: layers_only_def)
    have i2: "parse_inv n st s2" by (subst s2) (simp add: i1)
    obtain ix where ix: "index_dead_keys n s2 = s2\<lparr>dk_index := ix\<rparr>"
      using index_dead_keys_eq by blast
    have t: "take (length st) (store (index_dead_keys n s2)) = st"
      using i2 by (simp add: ix parse_inv_frame)
    have "\<forall>ka \<in> set (dead_keys s2). length st \<le> snd ka"
      using i2 by (simp add: parse_inv_def refs_fresh_def)
    from prune_dead_keys_Inl [OF 6(4) t this] show ?thesis .
  next
    case 7
    have "frame_ok st (parse_inv n st) (parse_blocks U n cfg (shape_rows sh) s0)"
      by (rule parse_blocks_inv [OF set_meta_inv [OF 7(1)]])
    with 7(2) have i1: "parse_inv n st s1" by (simp add: frame_ok_def)
    from set_spacebar_Inr [OF 7(3)] have s2: "s2 = s1\<lparr>layers := layers s2\<rparr>"
      by (simp add: layers_only_def)
    have i2: "parse_inv n st s2" by (subst s2) (simp add: i1)
    obtain ix where ix: "index_dead_keys n s2 = s2\<lparr>dk_index := ix\<rparr>"
      using index_dead_keys_eq by blast
    have fr: "refs_fresh st s2" using i2 by (simp add: parse_inv_def)
    have d: "distinct (map snd (dead_keys s2))"
      and b: "\<forall>ka \<in> set (dead_keys s2). snd ka < length (store (index_dead_keys n s2))"
      and lo: "\<forall>ka \<in> set (dead_keys s2). length st \<le> snd ka"
      using fr by (simp_all add: refs_fresh_def ix)
    from prune_dead_keys_Inr [OF 7(4) d b]
    have so: "store_only (index_dead_keys n s2) s3"
      and un: "\<forall>a. a \<notin> snd ` set (dead_keys s2) \<longrightarrow> store s3 ! a = store (index_dead_keys n s2) ! a"
      by blast+
    have len3: "length (store s3) = length (store s2)"
      using so by (simp add: store_only_def ix)
    have dk3: "dead_keys s3 = dead_keys s2"
      using store_only_sel [OF so] by (simp add: ix)
    have t3: "take (length st) (store s3) = st"
    proof -
      have "take (length st) (store s3) = take (length st) (store s2)"
      proof (rule nth_take_lemma)
        show "length st \<le> length (store s3)" using fr len3 by (simp add: refs_fresh_def)
        show "length st \<le> length (store s2)" using fr by (simp add: refs_fresh_def)
        fix i
        show "i < length st \<longrightarrow> store s3 ! i = store s2 ! i"
        proof
          assume "i < length st"
          with lo have "i \<notin> snd ` set (dead_keys s2)" by force
          with un show "store s3 ! i = store s2 ! i" by (simp add: ix)
        qed
      qed
      with fr show ?thesis by (simp add: refs_fresh_def)
    qed
    from lo have "\<forall>ka \<in> set (dead_keys s3). length st \<le> snd ka" by (simp add: dk3)
    from odk_pass_Inl [OF 7(5) t3 this] show ?thesis .
  qed
qed

lemma snd_eq_imp_eq:
  assumes "distinct (map snd al)" and "(k, a) \<in> set al" and "(k', a) \<in> set al"
  shows "k = k'"
proof -
  from assms(1) have "inj_on snd (set al)" by (simp add: distinct_map)
  from inj_onD [OF this _ assms(2,3)] show ?thesis by simp
qed

lemma compile_result:
  assumes "compile U G n ODK_ID cfg st = Inr s"
  shows "\<exists>s2. parse_inv n st s2 \<and> layers s = layers s2 \<and> dead_keys s = dead_keys s2 \<and>
           length (store s) = length (store s2) \<and>
           map_of (layers s ! ODK) ''spce'' = map_of (spacebar_table cfg) ''1dk'' \<and>
           map_of (spacebar_table cfg) ''1dk'' \<noteq> None \<and>
           (\<forall>a. a \<notin> snd ` set (dead_keys s) \<longrightarrow> store s ! a = store s2 ! a) \<and>
           (\<forall>ka \<in> set (dead_keys s).
              store s ! snd ka =
                (if fst ka = ODK_ID
                 then odk_object ODK_ID (spacebar_table cfg) (layers s)
                        (pruned (layers s) (store s2 ! snd ka))
                 else pruned (layers s) (store s2 ! snd ka))) \<and>
           (ODK_ID \<in> fst ` set (dead_keys s) \<longrightarrow>
              has_1dk s \<and>
              (\<forall>item \<in> set (layers s ! ODK). map_of (layers s ! BASE) (fst item) \<noteq> None) \<and>
              (\<forall>item \<in> set (layers s ! ODK_SHIFT). map_of (layers s ! SHIFT) (fst item) \<noteq> None))"
proof -
  let ?spc = "spacebar_table cfg"
  from compile_Inr [OF assms] obtain s0 :: layout and sh :: shape and s1 s2 s3
    where i0: "parse_inv n st s0"
      and p1: "parse_blocks U n cfg (shape_rows sh) s0 = Inr s1"
      and p2: "set_spacebar ?spc s1 = Inr s2"
      and p3: "prune_dead_keys (dead_keys s2) (index_dead_keys n s2) = Inr s3"
      and p4: "odk_pass ODK_ID ?spc s3 = Inr s"
    by blast
  have "frame_ok st (parse_inv n st) (parse_blocks U n cfg (shape_rows sh) s0)"
    by (rule parse_blocks_inv [OF i0])
  with p1 have i1: "parse_inv n st s1" by (simp add: frame_ok_def)
  from set_spacebar_Inr [OF p2] have s2: "s2 = s1\<lparr>layers := layers s2\<rparr>"
    by (simp add: layers_only_def)
  have i2: "parse_inv n st s2" by (subst s2) (simp add: i1)
  note spce = set_spacebar_odk [OF p2]
  obtain ix where ix: "index_dead_keys n s2 = s2\<lparr>dk_index := ix\<rparr>"
    using index_dead_keys_eq by blast
  have fr: "refs_fresh st s2" using i2 by (simp add: parse_inv_def)
  have d: "distinct (map snd (dead_keys s2))" and df: "distinct (map fst (dead_keys s2))"
    and b: "\<forall>ka \<in> set (dead_keys s2). snd ka < length (store (index_dead_keys n s2))"
    using fr by (simp_all add: refs_fresh_def ix)
  from prune_dead_keys_Inr [OF p3 d b]
  have so: "store_only (index_dead_keys n s2) s3"
    and pr: "\<forall>ka \<in> set (dead_keys s2). store s3 ! snd ka = pruned (layers s2) (store s2 ! snd ka)"
    and un: "\<forall>a. a \<notin> snd ` set (dead_keys s2) \<longrightarrow> store s3 ! a = store s2 ! a"
    by (simp_all add: ix)
  have len3: "length (store s3) = length (store s2)"
    using so by (simp add: store_only_def ix)
  have sel3: "layers s3 = layers s2" "dead_keys s3 = dead_keys s2"
    using store_only_sel [OF so] by (simp_all add: ix)
  show ?thesis
  proof (cases "map_of (dead_keys s3) ODK_ID")
    case None
    with p4 have s: "s = s3" by (simp add: odk_pass_None)
    from None have no: "ODK_ID \<notin> fst ` set (dead_keys s2)"
      by (simp add: map_of_eq_None_iff sel3)
    then have "\<forall>ka \<in> set (dead_keys s2). fst ka \<noteq> ODK_ID" by force
    with i2 spce pr un no len3 show ?thesis
      by (intro exI [of _ s2]) (simp add: s sel3)
  next
    case (Some a)
    then have mem: "(ODK_ID, a) \<in> set (dead_keys s2)"
      by (auto dest: map_of_SomeD simp: sel3)
    with b have alen: "a < length (store s3)" by (force simp: len3 ix)
    from odk_pass_Inr [OF p4 Some alen]
    have s: "s = s3\<lparr>has_1dk := True,
                 store := (store s3)[a := odk_object ODK_ID ?spc (layers s3) (store s3 ! a)]\<rparr>"
      and dom: "\<forall>item \<in> set (layers s3 ! ODK). map_of (layers s3 ! BASE) (fst item) \<noteq> None"
        "\<forall>item \<in> set (layers s3 ! ODK_SHIFT). map_of (layers s3 ! SHIFT) (fst item) \<noteq> None"
      by blast+
    have sel: "layers s = layers s2" "dead_keys s = dead_keys s2" "has_1dk s"
      "length (store s) = length (store s2)"
      "store s = (store s3)[a := odk_object ODK_ID ?spc (layers s2) (store s3 ! a)]"
      by (simp_all add: s sel3 len3)
    have unch: "store s ! a' = store s2 ! a'" if "a' \<notin> snd ` set (dead_keys s2)" for a'
    proof -
      from that mem have "a' \<noteq> a" by force
      with that un show ?thesis by (simp add: sel(5))
    qed
    have obj: "store s ! snd ka =
                (if fst ka = ODK_ID
                 then odk_object ODK_ID ?spc (layers s2) (pruned (layers s2) (store s2 ! snd ka))
                 else pruned (layers s2) (store s2 ! snd ka))"
      if ka: "ka \<in> set (dead_keys s2)" for ka
    proof (cases "fst ka = ODK_ID")
      case True
      with ka have "(ODK_ID, snd ka) \<in> set (dead_keys s2)" by (metis prod.collapse)
      with df have "map_of (dead_keys s2) ODK_ID = Some (snd ka)" by (rule map_of_is_SomeI)
      with Some have a: "snd ka = a" by (simp add: sel3)
      from pr ka a have "store s3 ! a = pruned (layers s2) (store s2 ! a)" by force
      with True alen a show ?thesis by (simp add: sel(5))
    next
      case False
      have "snd ka \<noteq> a"
      proof
        assume "snd ka = a"
        with ka have "(fst ka, a) \<in> set (dead_keys s2)" by (metis prod.collapse)
        from snd_eq_imp_eq [OF d this mem] False show False by simp
      qed
      moreover from pr ka have "store s3 ! snd ka = pruned (layers s2) (store s2 ! snd ka)"
        by blast
      ultimately show ?thesis using False by (simp add: sel(5))
    qed
    from i2 spce unch obj dom mem show ?thesis
      by (intro exI [of _ s2]) (simp add: sel(1-4) sel3)
  qed
qed

lemma odk_run: "compile unicode_fragment ex_G 2 [42, 42] odk_cfg ex_catalog = Inr odk_layout"
  by (simp add: eval_parse eval_compile odk_cfg_def odk_layout_def)

lemma shifted_trigger_run:
  "compile unicode_fragment ex_G 2 [42, 42] shifted_trigger_cfg ex_catalog
     = Inr shifted_trigger_layout"
  by (simp add: eval_parse eval_compile shifted_trigger_cfg_def shifted_trigger_layout_def)

lemma dash_run: "compile unicode_fragment ex_G3 2 [42, 42] dash_cfg ex_catalog = Inr dash_layout"
  by (simp add: eval_parse eval_compile ex_G3_def dash_cfg_def dash_layout_def)

lemma circ_run: "compile unicode_fragment ex_G 2 [42, 42] circ_cfg ex_catalog = Inr circ_layout"
  by (simp add: eval_parse eval_compile circ_cfg_def circ_layout_def)

section \<open>The catalog is not written\<close>

lemma compile_frame: "take (length st) (final_store (compile U G n ODK_ID cfg st)) = st"
proof (cases "compile U G n ODK_ID cfg st")
  case (Inl ex)
  with compile_Inl [OF Inl] show ?thesis by (simp add: final_store_def)
next
  case (Inr s)
  from compile_result [OF Inr] obtain s2 where i2: "parse_inv n st s2"
    and dk: "dead_keys s = dead_keys s2" and len: "length (store s) = length (store s2)"
    and un: "\<forall>a. a \<notin> snd ` set (dead_keys s) \<longrightarrow> store s ! a = store s2 ! a"
    by blast
  from i2 have fr: "refs_fresh st s2" by (simp add: parse_inv_def)
  have "take (length st) (store s) = take (length st) (store s2)"
  proof (rule nth_take_lemma)
    show "length st \<le> length (store s)" using fr len by (simp add: refs_fresh_def)
    show "length st \<le> length (store s2)" using fr by (simp add: refs_fresh_def)
    fix i
    show "i < length st \<longrightarrow> store s ! i = store s2 ! i"
    proof
      assume "i < length st"
      with fr have "i \<notin> snd ` set (dead_keys s)" by (force simp: dk refs_fresh_def)
      with un show "store s ! i = store s2 ! i" by simp
    qed
  qed
  with fr Inr show ?thesis by (simp add: final_store_def refs_fresh_def)
qed

lemma compilations_frame: "take (length st) (compilations U G n ODK_ID cfgs st) = st"
proof (induction cfgs arbitrary: st)
  case Nil
  then show ?case by (simp add: compilations_def)
next
  case (Cons cfg cfgs)
  let ?st1 = "final_store (compile U G n ODK_ID cfg st)"
  have 1: "take (length st) ?st1 = st" by (rule compile_frame)
  then have "length (take (length st) ?st1) = length st" by simp
  then have le: "length st \<le> length ?st1" by (simp add: min_def split: if_splits)
  have 2: "take (length ?st1) (compilations U G n ODK_ID cfgs ?st1) = ?st1" by (rule Cons.IH)
  have "take (length st) (compilations U G n ODK_ID cfgs ?st1)
          = take (length st) (take (length ?st1) (compilations U G n ODK_ID cfgs ?st1))"
    using le by (simp add: min_def)
  also have "\<dots> = st" by (simp only: 2 1)
  finally show ?case by (simp add: compilations_def)
qed

text \<open>
  Claim C9.  Whatever the outcome of the constructor, a layout or an exception, the store
  it started on is an initial segment of the store it leaves: no object that existed
  before is written, in particular none of the \<open>n\<close> catalog entries, whose \<open>char\<close>, \<open>base\<close> and
  \<open>alt\<close> are therefore what they were.  The dead keys of a layout are objects made by the
  constructor (\<open>dk.copy()\<close>), never catalog objects.  The same holds after any number of
  compilations.
\<close>

theorem catalog_frame:
  "take (length st) (final_store (compile U G n ODK_ID cfg st)) = st \<and>
   (\<forall>c < n. c < length st \<longrightarrow> final_store (compile U G n ODK_ID cfg st) ! c = st ! c) \<and>
   (\<forall>s. compile U G n ODK_ID cfg st = Inr s \<longrightarrow>
        (\<forall>ka \<in> set (dead_keys s). length st \<le> snd ka \<and> snd ka < length (store s))) \<and>
   take (length st) (compilations U G n ODK_ID cfgs st) = st \<and>
   (\<forall>c < n. c < length st \<longrightarrow> compilations U G n ODK_ID cfgs st ! c = st ! c)"
proof -
  have nth: "xs ! c = st ! c" if "take (length st) xs = st" "c < length st" for xs :: "dead_key list" and c
    using that by (metis nth_take)
  have refs: "length st \<le> snd ka \<and> snd ka < length (store s)"
    if "compile U G n ODK_ID cfg st = Inr s" "ka \<in> set (dead_keys s)" for s ka
  proof -
    from compile_result [OF that(1)] obtain s2 where "parse_inv n st s2"
      and "dead_keys s = dead_keys s2" and "length (store s) = length (store s2)"
      by blast
    with that(2) show ?thesis by (simp add: parse_inv_def refs_fresh_def)
  qed
  show ?thesis
    using compile_frame [of st U G n ODK_ID cfg] compilations_frame [of st U G n ODK_ID cfgs]
      nth refs by blast
qed

theorem catalog_frame_witness:
  "compile unicode_fragment ex_G 2 [42, 42] odk_cfg ex_catalog = Inr odk_layout \<and>
   take (length ex_catalog) (store odk_layout) = ex_catalog \<and>
   (0::nat) < 2 \<and> 0 < length ex_catalog \<and> store odk_layout ! 0 = ex_catalog ! 0 \<and>
   ([42, 42], 2) \<in> set (dead_keys odk_layout) \<and> length ex_catalog \<le> 2 \<and>
   2 < length (store odk_layout) \<and>
   take (length ex_catalog)
     (compilations unicode_fragment ex_G 2 [42, 42] [odk_cfg, sparse_cfg] ex_catalog) = ex_catalog"
proof -
  have dk: "([42, 42], 2) \<in> set (dead_keys odk_layout)" by (simp add: odk_layout_def)
  from catalog_frame [of ex_catalog unicode_fragment ex_G 2 "[42, 42]" odk_cfg "[odk_cfg, sparse_cfg]"]
  show ?thesis
    using odk_run dk by (force simp: final_store_def ex_catalog_def)
qed

section \<open>Pruning\<close>

lemma kept_pairs_zip:
  "zip (map fst (kept_pairs ls dk)) (map snd (kept_pairs ls dk)) = kept_pairs ls dk"
  by (simp add: zip_map_fst_snd)

lemma concat_singletons:
  "\<forall>x \<in> set xs. length (f x) = 1 \<Longrightarrow> concat (map f xs) = map (\<lambda>x. hd (f x)) xs"
proof (induction xs)
  case Nil
  show ?case by simp
next
  case (Cons x xs)
  from Cons.prems have "length (f x) = 1" by simp
  then have "f x = [hd (f x)]" by (cases "f x") simp_all
  with Cons show ?case by simp
qed

lemma odk_pairs_base:
  "concat (map fst (odk_pairs ODK_ID ls))
     = odk_base ODK_ID (ls ! BASE) (ls ! ODK) @ odk_base ODK_ID (ls ! SHIFT) (ls ! ODK_SHIFT)"
  by (simp add: odk_pairs_def odk_base_def comp_def)

lemma odk_pairs_alt:
  "concat (map snd (odk_pairs ODK_ID ls))
     = odk_alt ODK_ID (ls ! BASE) (ls ! ODK) @ odk_alt ODK_ID (ls ! SHIFT) (ls ! ODK_SHIFT)"
  by (simp add: odk_pairs_def odk_alt_def comp_def)

lemma odk_pairs_values:
  assumes "\<forall>item \<in> set (ls ! ODK). map_of (ls ! BASE) (fst item) \<noteq> None"
    and "\<forall>item \<in> set (ls ! ODK_SHIFT). map_of (ls ! SHIFT) (fst item) \<noteq> None"
    and "p \<in> set (odk_pairs ODK_ID ls)"
  shows "fst p \<in> snd ` set (ls ! BASE) \<or> fst p \<in> snd ` set (ls ! SHIFT)"
proof -
  have v: "the (map_of li key) \<in> snd ` set li" if "map_of li key \<noteq> None"
    for li :: "(key_id \<times> ustr) list" and key
  proof -
    from that obtain w where "map_of li key = Some w" by blast
    then show ?thesis by (force dest: map_of_SomeD)
  qed
  from assms(3) consider
      item where "item \<in> set (ls ! ODK)" "fst p = the (map_of (ls ! BASE) (fst item))"
    | item where "item \<in> set (ls ! ODK_SHIFT)" "fst p = the (map_of (ls ! SHIFT) (fst item))"
    by (auto simp: odk_pairs_def odk_entries_def)
  then show ?thesis
  proof cases
    case 1
    with assms(1) v [of "ls ! BASE" "fst item"] show ?thesis by simp
  next
    case 2
    with assms(2) v [of "ls ! SHIFT" "fst item"] show ?thesis by simp
  qed
qed

text \<open>
  Claim C2, as stated, fails on the entries appended to the one-dead-key entry, where no
  duplicate is looked for.  On the descriptor with the two dashes every cell is a single
  character, the arrays of the one-dead-key entry are \<open>a--\<close> and \<open>~\<close>, en dash, em dash, and
  the base character \<open>-\<close> is there twice, paired with two different alt characters.
\<close>

theorem odk_entries_not_pruned:
  "compile unicode_fragment ex_G3 2 [42, 42] dash_cfg ex_catalog = Inr dash_layout \<and>
   map_of (dead_keys dash_layout) [42, 42] = Some 2 \<and>
   base (store dash_layout ! 2) = [97, 45, 45] \<and>
   alt (store dash_layout ! 2) = [126, 0x2013, 0x2014] \<and>
   base (store dash_layout ! 2) ! 1 = base (store dash_layout ! 2) ! 2 \<and>
   alt (store dash_layout ! 2) ! 1 \<noteq> alt (store dash_layout ! 2) ! 2"
  using dash_run
  by (simp add: dash_layout_def ex_catalog_def)

text \<open>
  Claim C2, amended.  In the finished model every dead key \<open>k\<close> of the dead-key table is
  the copy of a catalog entry with trigger \<open>k\<close>.  Its arrays start with the pruned catalog
  arrays \<open>pb\<close> and \<open>pa\<close>: they have the same length, their pairs are exactly the pairs
  \<open>(base[i], alt[i])\<close> of the catalog entry whose base character is a value of the BASE or
  SHIFT layer of some key, in the order of the catalog, so every character of \<open>pb\<close> is such
  a value, and if no base character of the catalog entry has two different alt characters
  then none of \<open>pb\<close> has.  For every dead key other than the one-dead-key entry the arrays
  are \<open>pb\<close> and \<open>pa\<close>.  For the one-dead-key entry, when the values that the one-dead-key
  pass pairs are single characters, what follows \<open>pb\<close> and \<open>pa\<close> is aligned: its pairs are
  those appended, in the order of the pass, and every base character of it is a value of
  the BASE or SHIFT layer of some key.  Nothing looks for a base character that is there
  twice among the appended pairs.
\<close>

theorem pruning_sound:
  assumes "compile U G n ODK_ID cfg st = Inr s" and "n \<le> length st"
    and "(k, a) \<in> set (dead_keys s)"
  shows "\<exists>c<n. \<exists>pb pa xb xa.
           dk_char (st ! c) = k \<and>
           base (store s ! a) = pb @ xb \<and> alt (store s ! a) = pa @ xa \<and>
           length pb = length pa \<and>
           zip pb pa = filter (\<lambda>p. [fst p] \<in> snd ` set (layers s ! BASE) \<or>
                                    [fst p] \<in> snd ` set (layers s ! SHIFT))
                         (zip (base (st ! c)) (alt (st ! c))) \<and>
           (\<forall>ch \<in> set pb. [ch] \<in> snd ` set (layers s ! BASE) \<or>
                           [ch] \<in> snd ` set (layers s ! SHIFT)) \<and>
           ((\<forall>p \<in> set (zip (base (st ! c)) (alt (st ! c))).
               \<forall>q \<in> set (zip (base (st ! c)) (alt (st ! c))). fst p = fst q \<longrightarrow> snd p = snd q)
            \<longrightarrow> (\<forall>p \<in> set (zip pb pa). \<forall>q \<in> set (zip pb pa). fst p = fst q \<longrightarrow> snd p = snd q)) \<and>
           (k \<noteq> ODK_ID \<longrightarrow> xb = [] \<and> xa = []) \<and>
           (k = ODK_ID \<and>
            (\<forall>p \<in> set (odk_pairs ODK_ID (layers s)). length (fst p) = 1 \<and> length (snd p) = 1)
            \<longrightarrow> length xb = length xa \<and>
                zip xb xa = map (\<lambda>p. (hd (fst p), hd (snd p))) (odk_pairs ODK_ID (layers s)) \<and>
                (\<forall>ch \<in> set xb. [ch] \<in> snd ` set (layers s ! BASE) \<or>
                                [ch] \<in> snd ` set (layers s ! SHIFT)))"
proof -
  from compile_result [OF assms(1)] obtain s2 where i2: "parse_inv n st s2"
    and dk: "dead_keys s = dead_keys s2"
    and obj: "\<forall>ka \<in> set (dead_keys s).
              store s ! snd ka =
                (if fst ka = ODK_ID
                 then odk_object ODK_ID (spacebar_table cfg) (layers s)
                        (pruned (layers s) (store s2 ! snd ka))
                 else pruned (layers s) (store s2 ! snd ka))"
    and dom: "ODK_ID \<in> fst ` set (dead_keys s) \<longrightarrow>
              has_1dk s \<and>
              (\<forall>item \<in> set (layers s ! ODK). map_of (layers s ! BASE) (fst item) \<noteq> None) \<and>
              (\<forall>item \<in> set (layers s ! ODK_SHIFT). map_of (layers s ! SHIFT) (fst item) \<noteq> None)"
    by blast
  from i2 assms(2) have "copies_of n st s2" by (simp add: parse_inv_def)
  with assms(3) obtain c where c: "c < n" "dk_char (st ! c) = k" "store s2 ! a = st ! c"
    by (force simp: copies_of_def dk)
  let ?kp = "kept_pairs (layers s) (st ! c)"
  let ?pb = "map fst ?kp" and ?pa = "map snd ?kp"
  let ?E = "odk_pairs ODK_ID (layers s)"
  let ?xb = "if k = ODK_ID then concat (map fst ?E) else []"
  let ?xa = "if k = ODK_ID then concat (map snd ?E) else []"
  from obj assms(3) c(3) have o: "store s ! a =
      (if k = ODK_ID then odk_object ODK_ID (spacebar_table cfg) (layers s) (pruned (layers s) (st ! c))
       else pruned (layers s) (st ! c))" by force
  have z: "zip ?pb ?pa = filter (\<lambda>p. [fst p] \<in> snd ` set (layers s ! BASE) \<or>
                                    [fst p] \<in> snd ` set (layers s ! SHIFT))
                         (zip (base (st ! c)) (alt (st ! c)))"
    by (simp add: kept_pairs_zip) (simp add: kept_pairs_def layer_has_char_def)
  have u: "\<forall>ch \<in> set ?pb. [ch] \<in> snd ` set (layers s ! BASE) \<or> [ch] \<in> snd ` set (layers s ! SHIFT)"
    by (auto simp: kept_pairs_def layer_has_char_def)
  have f: "(\<forall>p \<in> set (zip (base (st ! c)) (alt (st ! c))).
               \<forall>q \<in> set (zip (base (st ! c)) (alt (st ! c))). fst p = fst q \<longrightarrow> snd p = snd q)
            \<longrightarrow> (\<forall>p \<in> set (zip ?pb ?pa). \<forall>q \<in> set (zip ?pb ?pa). fst p = fst q \<longrightarrow> snd p = snd q)"
    unfolding z by simp
  have x: "base (store s ! a) = ?pb @ ?xb" "alt (store s ! a) = ?pa @ ?xa"
    using o by (simp_all add: odk_object_def pruned_def odk_pairs_base odk_pairs_alt)
  have n: "k \<noteq> ODK_ID \<longrightarrow> ?xb = [] \<and> ?xa = []" by simp
  have l: "length ?pb = length ?pa" by simp
  have e: "k = ODK_ID \<and> (\<forall>p \<in> set ?E. length (fst p) = 1 \<and> length (snd p) = 1)
            \<longrightarrow> length ?xb = length ?xa \<and>
                zip ?xb ?xa = map (\<lambda>p. (hd (fst p), hd (snd p))) ?E \<and>
                (\<forall>ch \<in> set ?xb. [ch] \<in> snd ` set (layers s ! BASE) \<or>
                                [ch] \<in> snd ` set (layers s ! SHIFT))"
  proof
    assume h: "k = ODK_ID \<and> (\<forall>p \<in> set ?E. length (fst p) = 1 \<and> length (snd p) = 1)"
    then have kk: "k = ODK_ID" and one: "\<forall>p \<in> set ?E. length (fst p) = 1"
      "\<forall>p \<in> set ?E. length (snd p) = 1" by simp_all
    from kk assms(3) have "ODK_ID \<in> fst ` set (dead_keys s)" by force
    with dom have d:
      "\<forall>item \<in> set (layers s ! ODK). map_of (layers s ! BASE) (fst item) \<noteq> None"
      "\<forall>item \<in> set (layers s ! ODK_SHIFT). map_of (layers s ! SHIFT) (fst item) \<noteq> None"
      by simp_all
    have b: "?xb = map (\<lambda>p. hd (fst p)) ?E" using kk one(1) by (simp add: concat_singletons)
    have a: "?xa = map (\<lambda>p. hd (snd p)) ?E" using kk one(2) by (simp add: concat_singletons)
    have 1: "length ?xb = length ?xa" unfolding b a by simp
    have 2: "zip ?xb ?xa = map (\<lambda>p. (hd (fst p), hd (snd p))) ?E"
      unfolding b a by (simp add: zip_map_map zip_same_conv_map)
    have 3: "\<forall>ch \<in> set ?xb. [ch] \<in> snd ` set (layers s ! BASE) \<or> [ch] \<in> snd ` set (layers s ! SHIFT)"
    proof
      fix ch assume "ch \<in> set ?xb"
      then obtain p where p: "p \<in> set ?E" "ch = hd (fst p)" unfolding b by auto
      from one(1) p(1) have "length (fst p) = 1" by simp
      then have "fst p = [ch]" using p(2) by (cases "fst p") simp_all
      with odk_pairs_values [OF d p(1)] show
        "[ch] \<in> snd ` set (layers s ! BASE) \<or> [ch] \<in> snd ` set (layers s ! SHIFT)" by simp
    qed
    from 1 2 3 show "length ?xb = length ?xa \<and>
                zip ?xb ?xa = map (\<lambda>p. (hd (fst p), hd (snd p))) ?E \<and>
                (\<forall>ch \<in> set ?xb. [ch] \<in> snd ` set (layers s ! BASE) \<or>
                                [ch] \<in> snd ` set (layers s ! SHIFT))" by blast
  qed
  from c(1,2) x l z u f n e show ?thesis by blast
qed

theorem pruning_sound_witness:
  "compile unicode_fragment ex_G3 2 [42, 42] dash_cfg ex_catalog = Inr dash_layout \<and>
   compile unicode_fragment ex_G 2 [42, 42] circ_cfg ex_catalog = Inr circ_layout \<and>
   2 \<le> length ex_catalog \<and>
   ([42, 42], 2) \<in> set (dead_keys dash_layout) \<and>
   ([42, 94], 2) \<in> set (dead_keys circ_layout) \<and>
   odk_pairs [42, 42] (layers dash_layout) = [([97], [126]), ([45], [0x2013]), ([45], [0x2014])] \<and>
   list_all (\<lambda>p. length (fst p) = 1 \<and> length (snd p) = 1)
     (odk_pairs [42, 42] (layers dash_layout)) \<and>
   base (store dash_layout ! 2) = [97, 45, 45] \<and>
   alt (store dash_layout ! 2) = [126, 0x2013, 0x2014] \<and>
   base (store circ_layout ! 2) = [101] \<and> alt (store circ_layout ! 2) = [0xEA] \<and>
   (\<exists>c<2. \<exists>pb pa xb xa.
           dk_char (ex_catalog ! c) = [42, 42] \<and>
           base (store dash_layout ! 2) = pb @ xb \<and> alt (store dash_layout ! 2) = pa @ xa \<and>
           length pb = length pa \<and>
           zip pb pa = filter (\<lambda>p. [fst p] \<in> snd ` set (layers dash_layout ! BASE) \<or>
                                    [fst p] \<in> snd ` set (layers dash_layout ! SHIFT))
                         (zip (base (ex_catalog ! c)) (alt (ex_catalog ! c))) \<and>
           (\<forall>ch \<in> set pb. [ch] \<in> snd ` set (layers dash_layout ! BASE) \<or>
                           [ch] \<in> snd ` set (layers dash_layout ! SHIFT)) \<and>
           ((\<forall>p \<in> set (zip (base (ex_catalog ! c)) (alt (ex_catalog ! c))).
               \<forall>q \<in> set (zip (base (ex_catalog ! c)) (alt (ex_catalog ! c))).
                 fst p = fst q \<longrightarrow> snd p = snd q)
            \<longrightarrow> (\<forall>p \<in> set (zip pb pa). \<forall>q \<in> set (zip pb pa). fst p = fst q \<longrightarrow> snd p = snd q)) \<and>
           ([42, 42] \<noteq> [42, 42 :: nat] \<longrightarrow> xb = [] \<and> xa = []) \<and>
           ([42, 42] = [42, 42 :: nat] \<and>
            (\<forall>p \<in> set (odk_pairs [42, 42] (layers dash_layout)). length (fst p) = 1 \<and> length (snd p) = 1)
            \<longrightarrow> length xb = length xa \<and>
                zip xb xa = map (\<lambda>p. (hd (fst p), hd (snd p))) (odk_pairs [42, 42] (layers dash_layout)) \<and>
                (\<forall>ch \<in> set xb. [ch] \<in> snd ` set (layers dash_layout ! BASE) \<or>
                                [ch] \<in> snd ` set (layers dash_layout ! SHIFT)))) \<and>
   (\<exists>c<2. \<exists>pb pa xb xa.
           dk_char (ex_catalog ! c) = [42, 94] \<and>
           base (store circ_layout ! 2) = pb @ xb \<and> alt (store circ_layout ! 2) = pa @ xa \<and>
           length pb = length pa \<and>
           zip pb pa = filter (\<lambda>p. [fst p] \<in> snd ` set (layers circ_layout ! BASE) \<or>
                                    [fst p] \<in> snd ` set (layers circ_layout ! SHIFT))
                         (zip (base (ex_catalog ! c)) (alt (ex_catalog ! c))) \<and>
           (\<forall>ch \<in> set pb. [ch] \<in> snd ` set (layers circ_layout ! BASE) \<or>
                           [ch] \<in> snd ` set (layers circ_layout ! SHIFT)) \<and>
           ((\<forall>p \<in> set (zip (base (ex_catalog ! c)) (alt (ex_catalog ! c))).
               \<forall>q \<in> set (zip (base (ex_catalog ! c)) (alt (ex_catalog ! c))).
                 fst p = fst q \<longrightarrow> snd p = snd q)
            \<longrightarrow> (\<forall>p \<in> set (zip pb pa). \<forall>q \<in> set (zip pb pa). fst p = fst q \<longrightarrow> snd p = snd q)) \<and>
           ([42, 94] \<noteq> [42, 42 :: nat] \<longrightarrow> xb = [] \<and> xa = []) \<and>
           ([42, 94] = [42, 42 :: nat] \<and>
            (\<forall>p \<in> set (odk_pairs [42, 42] (layers circ_layout)). length (fst p) = 1 \<and> length (snd p) = 1)
            \<longrightarrow> length xb = length xa \<and>
                zip xb xa = map (\<lambda>p. (hd (fst p), hd (snd p))) (odk_pairs [42, 42] (layers circ_layout)) \<and>
                (\<forall>ch \<in> set xb. [ch] \<in> snd ` set (layers circ_layout ! BASE) \<or>
                                [ch] \<in> snd ` set (layers circ_layout ! SHIFT))))"
proof -
  have h2: "2 \<le> length ex_catalog" by (simp add: ex_catalog_def)
  have d3: "([42, 42], 2) \<in> set (dead_keys dash_layout)" by (simp add: dash_layout_def)
  have c3: "([42, 94], 2) \<in> set (dead_keys circ_layout)" by (simp add: circ_layout_def)
  have e: "odk_pairs [42, 42] (layers dash_layout)
             = [([97], [126]), ([45], [0x2013]), ([45], [0x2014])]"
    by (simp add: odk_pairs_def odk_entries_def dash_layout_def BASE_def SHIFT_def ODK_def
          ODK_SHIFT_def)
  have o: "\<forall>p \<in> set (odk_pairs [42, 42] (layers dash_layout)).
             length (fst p) = 1 \<and> length (snd p) = 1"
    by (simp add: e)
  have v: "base (store dash_layout ! 2) = [97, 45, 45]"
    "alt (store dash_layout ! 2) = [126, 0x2013, 0x2014]"
    "base (store circ_layout ! 2) = [101]" "alt (store circ_layout ! 2) = [0xEA]"
    by (simp_all add: dash_layout_def circ_layout_def ex_catalog_def)
  have o': "list_all (\<lambda>p. length (fst p) = 1 \<and> length (snd p) = 1)
              (odk_pairs [42, 42] (layers dash_layout))"
    by (simp add: e)
  from pruning_sound [OF dash_run h2 d3] pruning_sound [OF circ_run h2 c3]
    dash_run circ_run h2 d3 c3 e o o' v
  show ?thesis by simp
qed

section \<open>The one-dead-key entry\<close>

text \<open>
  Claim C5, as stated, fails where the trigger is on SHIFT.  On the descriptor with the
  shifted trigger the first key has \<open>x\<close> on BASE, which is not the trigger, yet its SHIFT and
  ODK_SHIFT glyphs (the trigger and \<open>y\<close>) are not in the arrays; the second key has the
  trigger on BASE, yet its SHIFT and ODK_SHIFT glyphs \<open>X\<close> and \<open>Y\<close> are.
\<close>

theorem odk_skip_is_per_layer:
  "compile unicode_fragment ex_G 2 [42, 42] shifted_trigger_cfg ex_catalog
     = Inr shifted_trigger_layout \<and>
   map_of (dead_keys shifted_trigger_layout) [42, 42] = Some 3 \<and>
   map_of (layers shifted_trigger_layout ! BASE) ''ad01'' = Some [120] \<and>
   map_of (layers shifted_trigger_layout ! SHIFT) ''ad01'' = Some [42, 42] \<and>
   map_of (layers shifted_trigger_layout ! ODK_SHIFT) ''ad01'' = Some [121] \<and>
   121 \<notin> set (alt (store shifted_trigger_layout ! 3)) \<and>
   map_of (layers shifted_trigger_layout ! BASE) ''ad02'' = Some [42, 42] \<and>
   map_of (layers shifted_trigger_layout ! SHIFT) ''ad02'' = Some [88] \<and>
   map_of (layers shifted_trigger_layout ! ODK_SHIFT) ''ad02'' = Some [89] \<and>
   base (store shifted_trigger_layout ! 3) = [120, 88] \<and>
   alt (store shifted_trigger_layout ! 3) = [122, 89]"
  using shifted_trigger_run
  by (simp add: shifted_trigger_layout_def ex_catalog_def BASE_def SHIFT_def ODK_SHIFT_def)

text \<open>
  Claim C5, amended.  When a dead key with the trigger \<open>ODK_ID\<close> is active, \<open>has_1dk\<close> is
  set and the arrays of its entry are what pruning left (\<open>pb\<close>, \<open>pa\<close>), extended first with
  the pairs (BASE glyph, ODK glyph) over the keys of the ODK layer, then with the pairs
  (SHIFT glyph, ODK_SHIFT glyph) over the keys of the ODK_SHIFT layer, each in the order
  of the layer, leaving out the spacebar and, in each pass, the keys whose glyph in the
  layer of that pass (BASE, respectively SHIFT) is the trigger; every key of the ODK
  layers has its glyph in the BASE, respectively SHIFT, layer.  \<open>alt_space\<close> is the
  ODK-layer value of the spacebar, and \<open>alt_self\<close> is the ODK-layer value of the first key
  of the BASE layer that bears the trigger, if there is one.
\<close>

theorem odk_synthesis:
  assumes "compile U G n ODK_ID cfg st = Inr s" and "map_of (dead_keys s) ODK_ID = Some a"
  shows "has_1dk s \<and>
         (\<exists>pb pa.
            base (store s ! a) = pb @ odk_base ODK_ID (layers s ! BASE) (layers s ! ODK)
                                    @ odk_base ODK_ID (layers s ! SHIFT) (layers s ! ODK_SHIFT) \<and>
            alt (store s ! a) = pa @ odk_alt ODK_ID (layers s ! BASE) (layers s ! ODK)
                                   @ odk_alt ODK_ID (layers s ! SHIFT) (layers s ! ODK_SHIFT)) \<and>
         (\<forall>item \<in> set (layers s ! ODK). map_of (layers s ! BASE) (fst item) \<noteq> None) \<and>
         (\<forall>item \<in> set (layers s ! ODK_SHIFT). map_of (layers s ! SHIFT) (fst item) \<noteq> None) \<and>
         alt_space (store s ! a) = map_of (layers s ! ODK) ''spce'' \<and>
         alt_space (store s ! a) \<noteq> None \<and>
         (\<forall>kv. find (\<lambda>kv. snd kv = ODK_ID) (layers s ! BASE) = Some kv
                \<longrightarrow> alt_self (store s ! a) = map_of (layers s ! ODK) (fst kv))"
proof -
  from assms(2) have mem: "(ODK_ID, a) \<in> set (dead_keys s)" by (rule map_of_SomeD)
  then have act: "ODK_ID \<in> fst ` set (dead_keys s)" by force
  from compile_result [OF assms(1)] obtain s2 :: layout where
        sp: "map_of (layers s ! ODK) ''spce'' = map_of (spacebar_table cfg) ''1dk''"
            "map_of (spacebar_table cfg) ''1dk'' \<noteq> None"
    and obj: "\<forall>ka \<in> set (dead_keys s).
              store s ! snd ka =
                (if fst ka = ODK_ID
                 then odk_object ODK_ID (spacebar_table cfg) (layers s)
                        (pruned (layers s) (store s2 ! snd ka))
                 else pruned (layers s) (store s2 ! snd ka))"
    and dom: "ODK_ID \<in> fst ` set (dead_keys s) \<longrightarrow>
              has_1dk s \<and>
              (\<forall>item \<in> set (layers s ! ODK). map_of (layers s ! BASE) (fst item) \<noteq> None) \<and>
              (\<forall>item \<in> set (layers s ! ODK_SHIFT). map_of (layers s ! SHIFT) (fst item) \<noteq> None)"
    by blast
  from obj mem have o: "store s ! a =
      odk_object ODK_ID (spacebar_table cfg) (layers s) (pruned (layers s) (store s2 ! a))"
    by force
  have 1: "\<exists>pb pa.
            base (store s ! a) = pb @ odk_base ODK_ID (layers s ! BASE) (layers s ! ODK)
                                    @ odk_base ODK_ID (layers s ! SHIFT) (layers s ! ODK_SHIFT) \<and>
            alt (store s ! a) = pa @ odk_alt ODK_ID (layers s ! BASE) (layers s ! ODK)
                                   @ odk_alt ODK_ID (layers s ! SHIFT) (layers s ! ODK_SHIFT)"
    by (simp add: o odk_object_def)
  have 2: "alt_space (store s ! a) = map_of (layers s ! ODK) ''spce''"
    "alt_space (store s ! a) \<noteq> None"
    using sp by (simp_all add: o odk_object_def)
  have 3: "\<forall>kv. find (\<lambda>kv. snd kv = ODK_ID) (layers s ! BASE) = Some kv
                \<longrightarrow> alt_self (store s ! a) = map_of (layers s ! ODK) (fst kv)"
    by (simp add: o odk_object_def)
  from dom act 1 2 3 show ?thesis by blast
qed

theorem odk_synthesis_witness:
  "compile unicode_fragment ex_G 2 [42, 42] odk_cfg ex_catalog = Inr odk_layout \<and>
   map_of (dead_keys odk_layout) [42, 42] = Some 2 \<and>
   has_1dk odk_layout \<and>
   odk_base [42, 42] (layers odk_layout ! BASE) (layers odk_layout ! ODK) = [97] \<and>
   odk_alt [42, 42] (layers odk_layout ! BASE) (layers odk_layout ! ODK) = [0xE0] \<and>
   base (store odk_layout ! 2) = [97, 65] \<and> alt (store odk_layout ! 2) = [0xE0, 0xC0] \<and>
   alt_space (store odk_layout ! 2) = Some [39] \<and>
   find (\<lambda>kv. snd kv = [42, 42]) (layers odk_layout ! BASE) = Some (''ad02'', [42, 42]) \<and>
   alt_self (store odk_layout ! 2) = map_of (layers odk_layout ! ODK) ''ad02''"
proof -
  have h2: "map_of (dead_keys odk_layout) [42, 42] = Some 2" by (simp add: odk_layout_def)
  have f: "find (\<lambda>kv. snd kv = [42, 42]) (layers odk_layout ! BASE) = Some (''ad02'', [42, 42])"
    by (simp add: odk_layout_def BASE_def)
  have v: "odk_base [42, 42] (layers odk_layout ! BASE) (layers odk_layout ! ODK) = [97]"
    "odk_alt [42, 42] (layers odk_layout ! BASE) (layers odk_layout ! ODK) = [0xE0]"
    "base (store odk_layout ! 2) = [97, 65]" "alt (store odk_layout ! 2) = [0xE0, 0xC0]"
    "alt_space (store odk_layout ! 2) = Some [39]"
    by (simp_all add: odk_layout_def ex_catalog_def odk_base_def odk_alt_def odk_entries_def
          BASE_def ODK_def)
  from odk_synthesis [OF odk_run h2] odk_run h2 f v show ?thesis by simp
qed

section \<open>The values that the parser inserts\<close>

lemma ligature_run:
  "parse_template unicode_fragment 0 ligature_canvas ex_rows ALTGR (blank_layout []) = Inr ligature_layout"
  by (simp add: eval_parse ligature_canvas_def ligature_layout_def ex_rows_def)

text \<open>
  Claim C10, as stated, fails: Python's \<open>str.upper()\<close> of the ligature U+FB01 is the
  two-letter string \<open>FI\<close>, which the parser inserts as the ALTGR_SHIFT value of a key whose
  AltGr cell is the ligature and whose shifted AltGr cell is blank.
\<close>

theorem inferred_value_not_a_cell:
  "parse_template unicode_fragment 0 ligature_canvas ex_rows ALTGR (blank_layout [])
     = Inr ligature_layout \<and>
   map_of (layers ligature_layout ! ALTGR_SHIFT) ''ad01'' = Some [70, 73] \<and>
   \<not> cell_value [70, 73] \<and> str_upper unicode_fragment [0xFB01] = [70, 73]"
  using ligature_run
  by (simp add: ligature_layout_def ALTGR_SHIFT_def cell_value_def star_def str_upper_def
        cp_upper_def unicode_fragment_def)

lemma cell_value_iff: "cell_value v \<longleftrightarrow> cell_shaped v \<and> v \<noteq> blank"
  by (auto simp: cell_value_def cell_shaped_def blank_def)

lemma py_get_Inr: "py_get xs i = Inr x \<Longrightarrow> x \<in> set xs"
  by (auto simp: py_get_def py_index_def split: if_splits)

lemma read_cell_shape:
  assumes "read_cell line i = Inr b"
  shows "\<exists>g \<in> set line. b = [g] \<or> b = [star, g]"
proof -
  from assms obtain m g where "py_get line (i - 1) = Inr m" "py_get line i = Inr g"
    "b = (if m = star then [star] else []) @ [g]"
    by (auto simp: read_cell_def split: sum.splits)
  then show ?thesis by (auto dest: py_get_Inr)
qed

lemma str_lower_cell:
  assumes "b = [g] \<or> b = [star, g]" and "length (cp_lower U g) = 1"
  shows "cell_shaped (str_lower U b)"
proof -
  have "cp_lower U star = [star]" by (simp add: cp_lower_def star_def)
  with assms show ?thesis by (auto simp: str_lower_def cell_shaped_def)
qed

lemma custom_alpha_value: "map_of custom_alpha t = Some v \<Longrightarrow> length v = 1"
  by (auto simp: custom_alpha_def split: if_splits)

lemma upper_key_shape:
  assumes "\<forall>c \<in> set v. length (cp_upper U c) = 1"
  shows "length (upper_key U v) = 1"
proof (cases "length v = 1")
  case False
  then show ?thesis by (simp add: upper_key_def blank_def)
next
  case True
  then obtain c where v: "v = [c]" by (cases v) auto
  with assms have "length (str_upper U v) = 1" by (simp add: str_upper_def)
  with True show ?thesis
    by (auto simp: upper_key_def blank_def split: option.split dest: custom_alpha_value)
qed

lemma store_layer_lookup:
  assumes "map_of (store_layer m key v ls ! m') key' = Some v'"
  shows "map_of (ls ! m') key' = Some v' \<or> (v' = v \<and> v \<noteq> blank)"
proof (cases "v = blank")
  case True
  with assms show ?thesis by (simp add: store_layer_def)
next
  case False
  show ?thesis
  proof (cases "m = m'")
    case neq: False
    with assms show ?thesis by (simp add: store_layer_def split: if_splits)
  next
    case eq: True
    show ?thesis
    proof (cases "m < length ls")
      case True
      with assms eq False show ?thesis
        by (auto simp: store_layer_def update_conv' split: if_splits)
    next
      case False
      then have "ls[m := AList.update key v (ls ! m)] = ls" by (simp add: not_less list_update_beyond)
      with assms show ?thesis by (simp add: store_layer_def split: if_splits)
    qed
  qed
qed

lemma only_cells_refl: "only_cells s s"
  by (simp add: only_cells_def)

lemma only_cells_trans: "only_cells s s1 \<Longrightarrow> only_cells s1 s2 \<Longrightarrow> only_cells s s2"
  unfolding only_cells_def by blast

lemma parse_key_only_cells:
  assumes "parse_key U n L base_line shift_line i key s = Inr s'"
    and "\<forall>c \<in> set base_line. length (cp_upper U c) = 1"
    and "\<forall>c \<in> set shift_line. length (cp_lower U c) = 1"
  shows "only_cells s s'"
proof -
  from parse_key_Inr [OF assms(1)] obtain b sh
    where b: "read_cell base_line i = Inr b" and sh: "read_cell shift_line i = Inr sh"
    and ls: "layers s' = store_layer (L + 1) key (expand_shift U L (expand_base U L b sh) sh)
                   (store_layer L key (expand_base U L b sh) (layers s))"
    by blast
  from read_cell_shape [OF b] obtain g where g: "g \<in> set base_line" "b = [g] \<or> b = [star, g]"
    by blast
  from read_cell_shape [OF sh] obtain h where h: "h \<in> set shift_line" "sh = [h] \<or> sh = [star, h]"
    by blast
  let ?bk = "expand_base U L b sh" and ?sk = "expand_shift U L (expand_base U L b sh) sh"
  have cb: "cell_shaped b" and cs: "cell_shaped sh"
    using g h by (auto simp: cell_shaped_def)
  have bk: "cell_shaped ?bk"
    using cb h assms(3) by (auto simp: expand_base_def intro: str_lower_cell)
  have sk: "cell_shaped ?sk"
  proof (cases "L \<noteq> BASE \<and> sh = blank")
    case True
    then have "?bk = b" by (simp add: expand_base_def)
    moreover have "\<forall>c \<in> set b. length (cp_upper U c) = 1"
      using g assms(2) by (auto simp: star_def cp_upper_def)
    ultimately have "length ?sk = 1" using True by (simp add: expand_shift_def upper_key_shape)
    then show ?thesis by (simp add: cell_shaped_def)
  next
    case False
    with cs show ?thesis by (auto simp: expand_shift_def)
  qed
  show ?thesis
    unfolding only_cells_def ls
    using bk sk by (auto dest!: store_layer_lookup simp: cell_value_iff)
qed

lemma parse_keys_only_cells:
  assumes "parse_keys U n L base_line shift_line i ks s = Inr s'"
    and "\<forall>c \<in> set base_line. length (cp_upper U c) = 1"
    and "\<forall>c \<in> set shift_line. length (cp_lower U c) = 1"
  shows "only_cells s s'"
  using assms(1)
proof (induction ks arbitrary: i s)
  case Nil
  then show ?case by (simp add: only_cells_refl)
next
  case (Cons key ks)
  from Cons.prems obtain s1 where s1: "parse_key U n L base_line shift_line i key s = Inr s1"
    and rest: "parse_keys U n L base_line shift_line (i + 6) ks s1 = Inr s'"
    by (cases "parse_key U n L base_line shift_line i key s") auto
  from parse_key_only_cells [OF s1 assms(2,3)] Cons.IH [OF rest] show ?case
    by (rule only_cells_trans)
qed

lemma parse_rows_only_cells:
  assumes "parse_rows U n T L j rws s = Inr s'"
    and "\<forall>line \<in> set T. \<forall>c \<in> set line. length (cp_lower U c) = 1 \<and> length (cp_upper U c) = 1"
  shows "only_cells s s'"
  using assms(1)
proof (induction rws arbitrary: j s)
  case Nil
  then show ?case by (simp add: only_cells_refl)
next
  case (Cons r rws)
  from Cons.prems obtain bl sl s1 where bl: "py_get T (int (2 + j * 3)) = Inr bl"
    and sl: "py_get T (int (1 + j * 3)) = Inr sl"
    and s1: "parse_keys U n L bl sl (offset r + col_offset L) (keys r) s = Inr s1"
    and rest: "parse_rows U n T L (j + 1) rws s1 = Inr s'"
    by (auto simp: raise_def split: sum.splits)
  from bl sl have "bl \<in> set T" "sl \<in> set T" by (auto dest: py_get_Inr)
  with assms(2) have "\<forall>c \<in> set bl. length (cp_upper U c) = 1"
    "\<forall>c \<in> set sl. length (cp_lower U c) = 1" by auto
  from parse_keys_only_cells [OF s1 this] Cons.IH [OF rest] show ?case
    by (rule only_cells_trans)
qed

text \<open>
  Claim C10, amended.  On a template whose characters each have a one-character
  lowercase and a one-character uppercase (as every ASCII character has), every value that
  \<open>_parse_template\<close> inserts into a layer map is a single character other than the space,
  or a two-character string whose first character is \<open>*\<close>: any entry of a layer afterwards
  was there before or has one of these two shapes.
\<close>

theorem parsed_values_are_cells:
  assumes "parse_template U n T rws L s = Inr s'"
    and "\<forall>line \<in> set T. \<forall>c \<in> set line. length (cp_lower U c) = 1 \<and> length (cp_upper U c) = 1"
  shows "\<forall>m key v. map_of (layers s' ! m) key = Some v
           \<longrightarrow> map_of (layers s ! m) key = Some v \<or>
               (length v = 1 \<and> v \<noteq> [32]) \<or> (length v = 2 \<and> hd v = 42)"
  using parse_rows_only_cells [OF assms(1) [unfolded parse_template_def] assms(2)]
  by (simp add: only_cells_def cell_value_def blank_def star_def)

lemma ascii_run:
  "parse_template unicode_fragment 0 ascii_canvas ex_rows BASE (blank_layout []) = Inr ascii_layout"
  by (simp add: eval_parse ascii_canvas_def ascii_layout_def ex_rows_def)

theorem parsed_values_are_cells_witness:
  "parse_template unicode_fragment 0 ascii_canvas ex_rows BASE (blank_layout []) = Inr ascii_layout \<and>
   list_all (list_all (\<lambda>c. length (cp_lower unicode_fragment c) = 1 \<and>
                             length (cp_upper unicode_fragment c) = 1)) ascii_canvas \<and>
   map_of (layers ascii_layout ! 0) ''ad02'' = Some [42, 94] \<and>
   (map_of (layers (blank_layout []) ! 0) ''ad02'' = Some [42, 94] \<or>
    (length [42, 94 :: nat] = 1 \<and> [42, 94] \<noteq> [32 :: nat]) \<or>
    (length [42, 94 :: nat] = 2 \<and> hd [42, 94 :: nat] = 42))"
proof -
  have h: "\<forall>line \<in> set ascii_canvas. \<forall>c \<in> set line.
      length (cp_lower unicode_fragment c) = 1 \<and> length (cp_upper unicode_fragment c) = 1"
    by (simp add: ascii_canvas_def cp_lower_def cp_upper_def)
  have v: "map_of (layers ascii_layout ! 0) ''ad02'' = Some [42, 94]"
    by (simp add: ascii_layout_def)
  from h have h': "list_all (list_all (\<lambda>c. length (cp_lower unicode_fragment c) = 1 \<and>
                             length (cp_upper unicode_fragment c) = 1)) ascii_canvas"
    by (simp add: list_all_iff)
  from parsed_values_are_cells [OF ascii_run h] ascii_run h' v show ?thesis by blast
qed

section \<open>Filling and parsing again\<close>

lemmas eval_fill = fill_template_def fill_key_def layer_get_def write_cell_def last_char_def
  is_dead_def py_set_def py_get_def py_index_def upper_key_def str_upper_def str_lower_def
  cp_upper_def cp_lower_def custom_alpha_def col_offset_def blank_def star_def BASE_def SHIFT_def
  Let_def unicode_fragment_def

text \<open>
  Claim C1 states that filling a fresh template from a parsed layer model and parsing the
  result gives the model back.  The parser makes of the canvas with the digit a model whose
  BASE layer maps the first key to \<open>1\<close>; \<open>_fill_template\<close> leaves the fresh template as it
  is, because \<open>upper_key\<close> of \<open>1\<close> is the blank and the absent SHIFT value is read as
  the blank too, so the test of line 333 fails and the base glyph is not written; parsing
  the filled template gives a model with no entry for the key.
\<close>

theorem fill_drops_unshifted_glyph:
  "parse_template unicode_fragment 0 digit_canvas ex_rows BASE (blank_layout []) = Inr digit_layout \<and>
   map_of (layers digit_layout ! BASE) ''ad01'' = Some [49] \<and>
   upper_key unicode_fragment [49] = blank \<and>
   fill_template unicode_fragment (layers digit_layout) fresh_template ex_rows BASE
     = Inr fresh_template \<and>
   parse_template unicode_fragment 0 fresh_template ex_rows BASE (blank_layout [])
     = Inr (blank_layout []) \<and>
   map_of (layers (blank_layout []) ! BASE) ''ad01'' = None \<and>
   blank_layout [] \<noteq> digit_layout"
proof -
  have 1: "parse_template unicode_fragment 0 digit_canvas ex_rows BASE (blank_layout [])
             = Inr digit_layout"
    by (simp add: eval_parse digit_canvas_def digit_layout_def ex_rows_def)
  have 2: "map_of (layers digit_layout ! BASE) ''ad01'' = Some [49]"
    by (simp add: digit_layout_def BASE_def)
  have 3: "upper_key unicode_fragment [49] = blank"
    by (simp add: upper_key_def custom_alpha_def str_upper_def str_lower_def cp_upper_def
          cp_lower_def blank_def)
  have 4: "fill_template unicode_fragment (layers digit_layout) fresh_template ex_rows BASE
             = Inr fresh_template"
    by (simp add: eval_fill digit_layout_def fresh_template_def ex_rows_def)
  have 5: "parse_template unicode_fragment 0 fresh_template ex_rows BASE (blank_layout [])
             = Inr (blank_layout [])"
    by (simp add: eval_parse fresh_template_def ex_rows_def)
  have 6: "map_of (layers (blank_layout []) ! BASE) ''ad01'' = None"
    by (simp add: blank_layout_def BASE_def)
  have 7: "blank_layout [] \<noteq> digit_layout"
    by (simp add: blank_layout_def digit_layout_def)
  from 1 2 3 4 5 6 7 show ?thesis by blast
qed

end
